theory Spec2Isabelle
  imports Complex_Main "HOL-Library.Log_Nat" "HOL-Library.Multiset"
begin

section \<open>Numeric Hessian by finite differences (package fd, hessian.go)\<close>

subsection \<open>The float64 operations the code uses\<close>

text \<open>
  hessian.go computes with float64 values through \<^verbatim>\<open>+\<close>, \<^verbatim>\<open>-\<close>, \<^verbatim>\<open>/\<close>, the comparison
  \<^verbatim>\<open>step == 0\<close> and the zero value that \<^verbatim>\<open>make\<close> fills a fresh slice with. The
  embedding takes these operations as a record over an arbitrary carrier, so that every
  general theorem below holds for IEEE-754 binary64 as for any other arithmetic, and no
  algebraic law (associativity, distributivity) is ever assumed of them.

  The same record carries the two values of the surrounding program that hessian.go reads
  but does not define: the constant \<^verbatim>\<open>Central2nd.Step\<close> of package fd and the
  result of \<^verbatim>\<open>runtime.GOMAXPROCS(0)\<close>.
\<close>

record 'a env =
  fadd :: "'a \<Rightarrow> 'a \<Rightarrow> 'a"
  fsub :: "'a \<Rightarrow> 'a \<Rightarrow> 'a"
  fdiv :: "'a \<Rightarrow> 'a \<Rightarrow> 'a"
  fzero :: "'a"
  feq :: "'a \<Rightarrow> 'a \<Rightarrow> bool"
  Central2nd_Step :: "'a"
  GOMAXPROCS :: "nat"

text \<open>
  Round to nearest, ties to even, on a 53-bit significand: the rounding of binary64 for
  every value whose magnitude is in the normal range (no overflow to infinity, no
  subnormal result). \<open>ilog2 q\<close> is the exponent of the leading bit of a positive \<open>q\<close>.
\<close>

definition ilog2 :: "rat \<Rightarrow> int" where
  "ilog2 q = (let (a, b) = quotient_of q; k = bitlen a - bitlen b
              in if power_int 2 k \<le> q then k else k - 1)"

definition round_even :: "rat \<Rightarrow> int" where
  "round_even m = (let r = \<lfloor>m\<rfloor>; d = m - of_int r
                   in if d < 1 / 2 then r else if 1 / 2 < d then r + 1
                      else if even r then r else r + 1)"

definition rne :: "rat \<Rightarrow> rat" where
  "rne q = (if q = 0 then 0
            else let e = ilog2 \<bar>q\<bar> - 52
                 in sgn q * of_int (round_even (\<bar>q\<bar> * power_int 2 (- e))) * power_int 2 e)"

text \<open>
  binary64 on the rationals: each operation is the exact one followed by \<open>rne\<close>. Division
  by zero, infinities and NaN are outside this instance; it is used at inputs that stay
  clear of them. \<open>c\<close> stands for \<^verbatim>\<open>Central2nd.Step\<close> and \<open>p\<close> for GOMAXPROCS.
\<close>

definition binary64 :: "rat \<Rightarrow> nat \<Rightarrow> rat env" where
  "binary64 c p =
     \<lparr>fadd = (\<lambda>a b. rne (a + b)), fsub = (\<lambda>a b. rne (a - b)), fdiv = (\<lambda>a b. rne (a / b)),
      fzero = 0, feq = (=), Central2nd_Step = c, GOMAXPROCS = p\<rparr>"

text \<open>Exact arithmetic in a field, the arithmetic the stencil formulas are derived in.\<close>

definition exact :: "'a::field \<Rightarrow> nat \<Rightarrow> 'a env" where
  "exact c p =
     \<lparr>fadd = (+), fsub = (-), fdiv = (/), fzero = 0, feq = (=),
      Central2nd_Step = c, GOMAXPROCS = p\<rparr>"

subsection \<open>Memory: slices, matrices, and the observable events\<close>

type_synonym addr = nat

text \<open>
  Modelled from the spec: \<^verbatim>\<open>mat64.SymDense\<close> is not part of this repository. The spec
  describes it as an n-by-n symmetric sink, written at (i, j) and read mirrored at (j, i);
  \<open>sym_n\<close> is the dimension reported by \<^verbatim>\<open>Symmetric()\<close>, \<open>sym_cell\<close> the stored upper
  triangle.
\<close>

record 'a SymDense =
  sym_n :: nat
  sym_cell :: "nat \<Rightarrow> nat \<Rightarrow> 'a"

definition At :: "'a SymDense \<Rightarrow> nat \<Rightarrow> nat \<Rightarrow> 'a" where
  "At m i j = sym_cell m (min i j) (max i j)"

definition set_cell :: "nat \<Rightarrow> nat \<Rightarrow> 'a \<Rightarrow> 'a SymDense \<Rightarrow> 'a SymDense" where
  "set_cell i j v m =
     m\<lparr>sym_cell := (\<lambda>a b. if a = min i j \<and> b = max i j then v else sym_cell m a b)\<rparr>"

datatype error = Mismatched_matrix_size | Index_out_of_range

text \<open>
  The world a call runs in. \<open>slices\<close> is the heap of \<^verbatim>\<open>[]float64\<close> values and \<open>mats\<close> the
  heap of matrices; an address is allocated when it is below \<open>nslices\<close> (\<open>nmats\<close>).
  \<open>evals\<close> records the argument of every call of the user's function, \<open>sets\<close> every call
  of \<^verbatim>\<open>SetSym\<close>, both oldest first. \<open>fault\<close> is the pending panic: once it is set, no
  operation has any further effect.
\<close>

record 'a world =
  slices :: "addr \<Rightarrow> 'a list"
  nslices :: nat
  mats :: "addr \<Rightarrow> 'a SymDense"
  nmats :: nat
  evals :: "'a list list"
  sets :: "(addr \<times> nat \<times> nat \<times> 'a) list"
  fault :: "error option"

definition make_slice :: "'a env \<Rightarrow> nat \<Rightarrow> 'a world \<Rightarrow> addr \<times> 'a world" where
  "make_slice E n w =
     (nslices w,
      if fault w \<noteq> None then w
      else w\<lparr>slices := (slices w)(nslices w := replicate n (fzero E)),
             nslices := Suc (nslices w)\<rparr>)"

text \<open>Go's \<^verbatim>\<open>copy(d, s)\<close> copies \<open>min (len d) (len s)\<close> elements and never panics.\<close>

definition copy_sl :: "addr \<Rightarrow> addr \<Rightarrow> 'a world \<Rightarrow> 'a world" where
  "copy_sl d s w =
     (if fault w \<noteq> None then w
      else let k = min (length (slices w d)) (length (slices w s))
           in w\<lparr>slices := (slices w)(d := take k (slices w s) @ drop k (slices w d))\<rparr>)"

text \<open>\<^verbatim>\<open>a[i] = v\<close>, with the bounds check of the Go runtime.\<close>

definition store_at :: "addr \<Rightarrow> nat \<Rightarrow> 'a \<Rightarrow> 'a world \<Rightarrow> 'a world" where
  "store_at a i v w =
     (if fault w \<noteq> None then w
      else if i < length (slices w a) then w\<lparr>slices := (slices w)(a := (slices w a)[i := v])\<rparr>
      else w\<lparr>fault := Some Index_out_of_range\<rparr>)"

text \<open>The bounds check of a read \<^verbatim>\<open>a[i]\<close>; the value read is \<open>slices w a ! i\<close>.\<close>

definition check_at :: "addr \<Rightarrow> nat \<Rightarrow> 'a world \<Rightarrow> 'a world" where
  "check_at a i w =
     (if fault w \<noteq> None then w
      else if i < length (slices w a) then w
      else w\<lparr>fault := Some Index_out_of_range\<rparr>)"

text \<open>\<^verbatim>\<open>a[i] += v\<close> and \<^verbatim>\<open>a[i] -= v\<close>.\<close>

definition add_at :: "'a env \<Rightarrow> addr \<Rightarrow> nat \<Rightarrow> 'a \<Rightarrow> 'a world \<Rightarrow> 'a world" where
  "add_at E a i v w = store_at a i (fadd E (slices w a ! i) v) (check_at a i w)"

definition sub_at :: "'a env \<Rightarrow> addr \<Rightarrow> nat \<Rightarrow> 'a \<Rightarrow> 'a world \<Rightarrow> 'a world" where
  "sub_at E a i v w = store_at a i (fsub E (slices w a ! i) v) (check_at a i w)"

text \<open>
  A call \<^verbatim>\<open>f(a)\<close> of the user's function. The function is pure (the spec requires it), so
  its value is \<open>f (slices w a)\<close>; the call itself is recorded.
\<close>

definition call :: "addr \<Rightarrow> 'a world \<Rightarrow> 'a world" where
  "call a w = (if fault w \<noteq> None then w else w\<lparr>evals := evals w @ [slices w a]\<rparr>)"

text \<open>
  Modelled from the spec: \<^verbatim>\<open>mat64.NewSymDense(n, nil)\<close> and \<^verbatim>\<open>SetSym\<close> belong to the
  external matrix package. A new matrix has dimension \<open>n\<close> and zero cells; \<^verbatim>\<open>SetSym\<close>
  writes one cell of the symmetric sink and panics outside the dimension.
\<close>

definition NewSymDense :: "'a env \<Rightarrow> nat \<Rightarrow> 'a world \<Rightarrow> addr \<times> 'a world" where
  "NewSymDense E n w =
     (nmats w,
      if fault w \<noteq> None then w
      else w\<lparr>mats := (mats w)(nmats w := \<lparr>sym_n = n, sym_cell = (\<lambda>a b. fzero E)\<rparr>),
             nmats := Suc (nmats w)\<rparr>)"

definition SetSym :: "addr \<Rightarrow> nat \<Rightarrow> nat \<Rightarrow> 'a \<Rightarrow> 'a world \<Rightarrow> 'a world" where
  "SetSym m i j v w =
     (if fault w \<noteq> None then w
      else if i < sym_n (mats w m) \<and> j < sym_n (mats w m)
           then w\<lparr>mats := (mats w)(m := set_cell i j v (mats w m)),
                  sets := sets w @ [(m, i, j, v)]\<rparr>
           else w\<lparr>fault := Some Index_out_of_range\<rparr>)"

subsection \<open>HessianSettings\<close>

record 'a HessianSettings =
  OriginKnown :: bool
  OriginValue :: "'a"
  Step :: "'a"
  Concurrent :: bool

text \<open>The zero value \<^verbatim>\<open>&HessianSettings{}\<close> that replaces a nil settings pointer.\<close>

definition zero_settings :: "'a env \<Rightarrow> 'a HessianSettings" where
  "zero_settings E =
     \<lparr>OriginKnown = False, OriginValue = fzero E, Step = fzero E, Concurrent = False\<rparr>"

subsection \<open>hessianSerial\<close>

text \<open>The body of the first loop: \<^verbatim>\<open>neigh[i] = f(x + step * e_i)\<close>.\<close>

definition serial_neigh ::
  "'a env \<Rightarrow> ('a list \<Rightarrow> 'a) \<Rightarrow> addr \<Rightarrow> addr \<Rightarrow> addr \<Rightarrow> 'a \<Rightarrow> nat \<Rightarrow> 'a world \<Rightarrow> 'a world" where
  "serial_neigh E f x xcopy neigh step i w =
     (let w = copy_sl xcopy x w;
          w = add_at E xcopy i step w;
          v = f (slices w xcopy);
          w = call xcopy w
      in store_at neigh i v w)"

text \<open>The diagonal entry of row \<open>i\<close> (lines 72 to 75).\<close>

definition serial_diag ::
  "'a env \<Rightarrow> addr \<Rightarrow> ('a list \<Rightarrow> 'a) \<Rightarrow> addr \<Rightarrow> addr \<Rightarrow> addr \<Rightarrow> 'a \<Rightarrow> 'a \<Rightarrow> nat
     \<Rightarrow> 'a world \<Rightarrow> 'a world" where
  "serial_diag E dst f x xcopy neigh step origin i w =
     (let w = copy_sl xcopy x w;
          w = sub_at E xcopy i step w;
          fii = f (slices w xcopy);
          w = call xcopy w;
          ni = slices w neigh ! i;
          w = check_at neigh i w
      in SetSym dst i i
           (fdiv E (fsub E (fdiv E (fsub E ni origin) step)
                           (fdiv E (fsub E origin fii) step)) step) w)"

text \<open>The off-diagonal entry (i, j) of the inner loop (lines 77 to 81).\<close>

definition serial_off ::
  "'a env \<Rightarrow> addr \<Rightarrow> ('a list \<Rightarrow> 'a) \<Rightarrow> addr \<Rightarrow> addr \<Rightarrow> addr \<Rightarrow> 'a \<Rightarrow> 'a \<Rightarrow> nat \<Rightarrow> nat
     \<Rightarrow> 'a world \<Rightarrow> 'a world" where
  "serial_off E dst f x xcopy neigh step origin i j w =
     (let w = copy_sl xcopy x w;
          w = add_at E xcopy i step w;
          w = add_at E xcopy j step w;
          fij = f (slices w xcopy);
          w = call xcopy w;
          nj = slices w neigh ! j;
          w = check_at neigh j w;
          ni = slices w neigh ! i;
          w = check_at neigh i w
      in SetSym dst i j
           (fdiv E (fsub E (fdiv E (fsub E fij nj) step)
                           (fdiv E (fsub E ni origin) step)) step) w)"

definition serial_row ::
  "'a env \<Rightarrow> addr \<Rightarrow> ('a list \<Rightarrow> 'a) \<Rightarrow> addr \<Rightarrow> addr \<Rightarrow> addr \<Rightarrow> 'a \<Rightarrow> 'a \<Rightarrow> nat
     \<Rightarrow> 'a world \<Rightarrow> 'a world" where
  "serial_row E dst f x xcopy neigh step origin i w =
     (let w = serial_diag E dst f x xcopy neigh step origin i w
      in fold (serial_off E dst f x xcopy neigh step origin i)
              [i + 1..<length (slices w x)] w)"

definition hessianSerial ::
  "'a env \<Rightarrow> addr \<Rightarrow> ('a list \<Rightarrow> 'a) \<Rightarrow> addr \<Rightarrow> addr \<Rightarrow> 'a \<Rightarrow> 'a \<Rightarrow> 'a world \<Rightarrow> 'a world" where
  "hessianSerial E dst f x xcopy step origin w =
     (let (neigh, w) = make_slice E (length (slices w x)) w;
          w = fold (serial_neigh E f x xcopy neigh step) [0..<length (slices w xcopy)] w
      in fold (serial_row E dst f x xcopy neigh step origin) [0..<length (slices w xcopy)] w)"

subsection \<open>hessianConcurrent\<close>

datatype hessJob = hessJob (job_i: nat) (job_j: nat)

text \<open>
  \<^verbatim>\<open>hessianProducer\<close> sends the jobs of the upper triangle, row by row, and closes the
  channel: the list of the jobs sent.
\<close>

definition hessianProducer :: "nat \<Rightarrow> hessJob list" where
  "hessianProducer n =
     concat (map (\<lambda>i. hessJob i i # map (\<lambda>j. hessJob i j) [i + 1..<n]) [0..<n])"

text \<open>
  The goroutines of a pool receive the items sent on the channel in an order, and by a
  worker, that the Go scheduler decides. A delivery is that decision: from the number of
  workers and the items sent, the list of (worker, item) in the order the workers process
  them. A channel hands each item sent to exactly one receiver, and only to workers that
  exist: \<open>fair\<close>. With no worker and an item to send no fair delivery exists (the send
  would block for ever).

  Processing one item is taken as one step. This loses nothing: a worker writes only its
  own scratch slice, one cell of \<open>neigh\<close> or of the sink that no other job writes, and
  reads only \<open>x\<close> and, in the second phase, the completed \<open>neigh\<close>.
\<close>

type_synonym 'j delivery = "nat \<Rightarrow> 'j list \<Rightarrow> (nat \<times> 'j) list"

record sched =
  neigh_delivery :: "nat delivery"
  hess_delivery :: "hessJob delivery"

definition fair :: "'j delivery \<Rightarrow> nat \<Rightarrow> 'j list \<Rightarrow> bool" where
  "fair d k js \<longleftrightarrow> mset (map snd (d k js)) = mset js \<and> (\<forall>p \<in> set (d k js). fst p < k)"

text \<open>Each worker starts with \<^verbatim>\<open>xcopy := make([]float64, n)\<close>: \<open>k\<close> fresh slices in a row.\<close>

primrec make_workers :: "'a env \<Rightarrow> nat \<Rightarrow> nat \<Rightarrow> 'a world \<Rightarrow> 'a world" where
  "make_workers E 0 n w = w"
| "make_workers E (Suc k) n w = make_workers E k n (snd (make_slice E n w))"

text \<open>One job of the first pool (lines 101 to 105), by the worker whose scratch is at \<open>base + wk\<close>.\<close>

definition neigh_job ::
  "'a env \<Rightarrow> ('a list \<Rightarrow> 'a) \<Rightarrow> addr \<Rightarrow> addr \<Rightarrow> 'a \<Rightarrow> addr \<Rightarrow> nat \<times> nat \<Rightarrow> 'a world \<Rightarrow> 'a world" where
  "neigh_job E f x neigh step base p w =
     (let xcopy = base + fst p; job = snd p;
          w = copy_sl xcopy x w;
          w = add_at E xcopy job step w;
          v = f (slices w xcopy);
          w = call xcopy w
      in store_at neigh job v w)"

text \<open>One job of the second pool (lines 120 to 134).\<close>

definition hess_job ::
  "'a env \<Rightarrow> addr \<Rightarrow> ('a list \<Rightarrow> 'a) \<Rightarrow> addr \<Rightarrow> addr \<Rightarrow> 'a \<Rightarrow> 'a \<Rightarrow> addr \<Rightarrow> nat \<times> hessJob
     \<Rightarrow> 'a world \<Rightarrow> 'a world" where
  "hess_job E dst f x neigh step origin base p w =
     (let xcopy = base + fst p; job = snd p;
          w = copy_sl xcopy x w;
          w = (if job_i job = job_j job then sub_at E xcopy (job_i job) step w
               else add_at E xcopy (job_j job) step (add_at E xcopy (job_i job) step w));
          fx = f (slices w xcopy);
          w = call xcopy w
      in if job_i job = job_j job
         then let ni = slices w neigh ! job_i job;
                  w = check_at neigh (job_i job) w
              in SetSym dst (job_i job) (job_i job)
                   (fdiv E (fdiv E (fsub E (fadd E (fsub E fx origin) ni) origin) step) step) w
         else let nj = slices w neigh ! job_j job;
                  w = check_at neigh (job_j job) w;
                  ni = slices w neigh ! job_i job;
                  w = check_at neigh (job_i job) w
              in SetSym dst (job_i job) (job_j job)
                   (fdiv E (fdiv E (fsub E (fadd E (fsub E fx nj) origin) ni) step) step) w)"

definition hessianConcurrent ::
  "'a env \<Rightarrow> sched \<Rightarrow> addr \<Rightarrow> ('a list \<Rightarrow> 'a) \<Rightarrow> addr \<Rightarrow> 'a \<Rightarrow> 'a \<Rightarrow> nat \<Rightarrow> 'a world \<Rightarrow> 'a world" where
  "hessianConcurrent E S dst f x step origin nWorkers w =
     (let n = length (slices w x);
          (neigh, w) = make_slice E n w;
          neighWorkers = (if nWorkers > n then n else nWorkers);
          baseA = nslices w;
          w = make_workers E neighWorkers n w;
          w = fold (neigh_job E f x neigh step baseA)
                   (neigh_delivery S neighWorkers [0..<length (slices w neigh)]) w;
          baseB = nslices w;
          w = make_workers E nWorkers n w
      in fold (hess_job E dst f x neigh step origin baseB)
              (hess_delivery S nWorkers (hessianProducer n)) w)"

subsection \<open>Hessian\<close>

text \<open>
  The outcome of a call is the sink returned or the panic raised, with the world the call
  leaves. A nil \<^verbatim>\<open>dst\<close> or \<^verbatim>\<open>settings\<close> pointer is \<open>None\<close>. Lengths, indices and the
  worker count are natural numbers: they are never negative in the code, and
  \<^verbatim>\<open>n + n*(n-1)/2\<close> cannot wrap in Go's 64-bit \<^verbatim>\<open>int\<close> for a length \<open>n\<close> whose \<open>n\<close>-by-\<open>n\<close>
  sink fits in memory (for \<open>n = 0\<close> both Go and the truncated subtraction give 0).
\<close>

datatype 'a outcome = Return (sink: addr) (final: "'a world") | Panic (cause: error) (final: "'a world")

definition Hessian ::
  "'a env \<Rightarrow> sched \<Rightarrow> addr option \<Rightarrow> ('a list \<Rightarrow> 'a) \<Rightarrow> addr \<Rightarrow> 'a HessianSettings option
     \<Rightarrow> 'a world \<Rightarrow> 'a outcome" where
  "Hessian E S dst f x settings w =
     (let n = length (slices w x);
          (dst, w) = (case dst of None \<Rightarrow> NewSymDense E n w | Some d \<Rightarrow> (d, w))
      in if sym_n (mats w dst) \<noteq> n then Panic Mismatched_matrix_size w
         else
           let settings = (case settings of None \<Rightarrow> zero_settings E | Some s \<Rightarrow> s);
               step = Step settings;
               step = (if feq E step (fzero E) then Central2nd_Step E else step);
               expect = n + n * (n - 1) div 2;
               nWorkers = (if Concurrent settings
                           then (if GOMAXPROCS E > expect then expect else GOMAXPROCS E)
                           else 1);
               (xcopy, w) = make_slice E n w;
               origin = OriginValue settings;
               (origin, w) = (if \<not> OriginKnown settings
                              then let w = copy_sl xcopy x w in (f (slices w xcopy), call xcopy w)
                              else (origin, w));
               w = (if nWorkers = 1 then hessianSerial E dst f x xcopy step origin w
                    else hessianConcurrent E S dst f x step origin nWorkers w)
           in case fault w of None \<Rightarrow> Return dst w | Some e \<Rightarrow> Panic e w)"

subsection \<open>The quantities the specification speaks of\<close>

text \<open>
  The points of the stencil around \<open>xs\<close>: \<open>x + step * e_i\<close>, \<open>x - step * e_i\<close>, and the
  point an entry (i, j) is evaluated at, with the additions done one coordinate after the
  other as the code does them.
\<close>

definition shifted :: "'a env \<Rightarrow> 'a list \<Rightarrow> 'a \<Rightarrow> nat \<Rightarrow> 'a list" where
  "shifted E xs step i = xs[i := fadd E (xs ! i) step]"

definition shifted_back :: "'a env \<Rightarrow> 'a list \<Rightarrow> 'a \<Rightarrow> nat \<Rightarrow> 'a list" where
  "shifted_back E xs step i = xs[i := fsub E (xs ! i) step]"

definition stencil_point :: "'a env \<Rightarrow> 'a list \<Rightarrow> 'a \<Rightarrow> nat \<Rightarrow> nat \<Rightarrow> 'a list" where
  "stencil_point E xs step i j =
     (if i = j then shifted_back E xs step i else shifted E (shifted E xs step i) step j)"

text \<open>
  The entry formulas, over the values of \<open>f\<close> at the stencil points. \<open>serial_entry\<close> is
  the formula of the specification (sections 4.3 and 4.4) and of \<^verbatim>\<open>hessianSerial\<close>;
  \<open>concurrent_entry\<close> is the formula the workers of \<^verbatim>\<open>hessianConcurrent\<close> evaluate.
\<close>

definition serial_entry :: "'a env \<Rightarrow> ('a list \<Rightarrow> 'a) \<Rightarrow> 'a list \<Rightarrow> 'a \<Rightarrow> 'a \<Rightarrow> nat \<Rightarrow> nat \<Rightarrow> 'a" where
  "serial_entry E f xs step origin i j =
     (if i = j
      then fdiv E (fsub E (fdiv E (fsub E (f (shifted E xs step i)) origin) step)
                          (fdiv E (fsub E origin (f (shifted_back E xs step i))) step)) step
      else fdiv E (fsub E (fdiv E (fsub E (f (shifted E (shifted E xs step i) step j))
                                          (f (shifted E xs step j))) step)
                          (fdiv E (fsub E (f (shifted E xs step i)) origin) step)) step)"

definition concurrent_entry :: "'a env \<Rightarrow> ('a list \<Rightarrow> 'a) \<Rightarrow> 'a list \<Rightarrow> 'a \<Rightarrow> 'a \<Rightarrow> nat \<Rightarrow> nat \<Rightarrow> 'a" where
  "concurrent_entry E f xs step origin i j =
     (if i = j
      then fdiv E (fdiv E (fsub E (fadd E (fsub E (f (shifted_back E xs step i)) origin)
                                          (f (shifted E xs step i))) origin) step) step
      else fdiv E (fdiv E (fsub E (fadd E (fsub E (f (shifted E (shifted E xs step i) step j))
                                                  (f (shifted E xs step j))) origin)
                                  (f (shifted E xs step i))) step) step)"

text \<open>
  What a call resolves its settings to: the settings record behind a possibly nil pointer,
  the step (the default when the supplied one compares equal to zero), the origin value
  (supplied, or \<open>f\<close> at the point) and the number of workers.
\<close>

definition settings_of :: "'a env \<Rightarrow> 'a HessianSettings option \<Rightarrow> 'a HessianSettings" where
  "settings_of E settings = (case settings of None \<Rightarrow> zero_settings E | Some s \<Rightarrow> s)"

definition step_of :: "'a env \<Rightarrow> 'a HessianSettings option \<Rightarrow> 'a" where
  "step_of E settings =
     (if feq E (Step (settings_of E settings)) (fzero E) then Central2nd_Step E
      else Step (settings_of E settings))"

definition origin_of :: "'a env \<Rightarrow> ('a list \<Rightarrow> 'a) \<Rightarrow> 'a list \<Rightarrow> 'a HessianSettings option \<Rightarrow> 'a" where
  "origin_of E f xs settings =
     (if OriginKnown (settings_of E settings) then OriginValue (settings_of E settings) else f xs)"

definition workers_of :: "'a env \<Rightarrow> nat \<Rightarrow> 'a HessianSettings option \<Rightarrow> nat" where
  "workers_of E n settings =
     (if Concurrent (settings_of E settings) then min (GOMAXPROCS E) (n + n * (n - 1) div 2) else 1)"

text \<open>
  The sink a call fills (the one passed, or the next free matrix address), what it holds
  before the stencil runs, and the condition under which the size check passes.
\<close>

definition sink_of :: "addr option \<Rightarrow> 'a world \<Rightarrow> addr" where
  "sink_of dst w = (case dst of None \<Rightarrow> nmats w | Some d \<Rightarrow> d)"

definition sink_before :: "'a env \<Rightarrow> addr option \<Rightarrow> nat \<Rightarrow> 'a world \<Rightarrow> 'a SymDense" where
  "sink_before E dst n w =
     (case dst of None \<Rightarrow> \<lparr>sym_n = n, sym_cell = (\<lambda>a b. fzero E)\<rparr> | Some d \<Rightarrow> mats w d)"

definition fits :: "addr option \<Rightarrow> addr \<Rightarrow> 'a world \<Rightarrow> bool" where
  "fits dst x w \<longleftrightarrow> (case dst of None \<Rightarrow> True | Some d \<Rightarrow> sym_n (mats w d) = length (slices w x))"

text \<open>
  A scheduler is admissible for a call when its deliveries are fair for the two pools the
  call starts; a call that resolves to one worker runs \<^verbatim>\<open>hessianSerial\<close> and starts none.
\<close>

definition admissible :: "'a env \<Rightarrow> sched \<Rightarrow> nat \<Rightarrow> 'a HessianSettings option \<Rightarrow> bool" where
  "admissible E S n settings \<longleftrightarrow>
     workers_of E n settings = 1 \<or>
     (fair (neigh_delivery S)
        (if workers_of E n settings > n then n else workers_of E n settings) [0..<n] \<and>
      fair (hess_delivery S) (workers_of E n settings) (hessianProducer n))"

text \<open>
  The entry formula of the path a call takes.
\<close>

definition entry_of ::
  "'a env \<Rightarrow> ('a list \<Rightarrow> 'a) \<Rightarrow> 'a list \<Rightarrow> 'a HessianSettings option \<Rightarrow> nat \<Rightarrow> nat \<Rightarrow> 'a" where
  "entry_of E f xs settings =
     (if workers_of E (length xs) settings = 1
      then serial_entry E f xs (step_of E settings) (origin_of E f xs settings)
      else concurrent_entry E f xs (step_of E settings) (origin_of E f xs settings))"

subsection \<open>Auxiliary notions of the proofs\<close>

text \<open>
  The net effect of one job of the first phase (one scratch slice overwritten, one cell of
  \<open>neigh\<close> stored, one evaluation) and of the second phase (one scratch slice, one
  evaluation, one cell of the sink), and the sink with its whole upper triangle written.
\<close>

definition neigh_effect :: "addr \<Rightarrow> addr \<Rightarrow> 'a list \<Rightarrow> 'a \<Rightarrow> nat \<Rightarrow> 'a world \<Rightarrow> 'a world" where
  "neigh_effect sc neigh p v i w =
     w\<lparr>slices := (slices w)(sc := p, neigh := (slices w neigh)[i := v]), evals := evals w @ [p]\<rparr>"

definition entry_effect :: "addr \<Rightarrow> addr \<Rightarrow> 'a list \<Rightarrow> 'a \<Rightarrow> nat \<Rightarrow> nat \<Rightarrow> 'a world \<Rightarrow> 'a world" where
  "entry_effect dst sc p v i j w =
     w\<lparr>slices := (slices w)(sc := p), evals := evals w @ [p],
       mats := (mats w)(dst := set_cell i j v (mats w dst)),
       sets := sets w @ [(dst, i, j, v)]\<rparr>"

definition job_effect ::
  "addr \<Rightarrow> addr \<Rightarrow> (nat \<Rightarrow> nat \<Rightarrow> 'a list) \<Rightarrow> (nat \<Rightarrow> nat \<Rightarrow> 'a) \<Rightarrow> hessJob \<Rightarrow> 'a world \<Rightarrow> 'a world" where
  "job_effect dst sc pt vl job =
     entry_effect dst sc (pt (job_i job) (job_j job)) (vl (job_i job) (job_j job))
       (job_i job) (job_j job)"

definition filled :: "nat \<Rightarrow> (nat \<Rightarrow> nat \<Rightarrow> 'a) \<Rightarrow> 'a SymDense \<Rightarrow> 'a SymDense" where
  "filled n vl m = m\<lparr>sym_cell := (\<lambda>a b. if a \<le> b \<and> b < n then vl a b else sym_cell m a b)\<rparr>"

definition row_jobs :: "nat \<Rightarrow> nat \<Rightarrow> hessJob list" where
  "row_jobs n i = hessJob i i # map (hessJob i) [i + 1..<n]"

text \<open>
  What the loops keep true: the point and the table of neighbours are not touched, the
  scratch slices keep the length of the point, the sink keeps its dimension.
\<close>

definition serial_inv :: "addr \<Rightarrow> addr \<Rightarrow> addr \<Rightarrow> addr \<Rightarrow> 'a list \<Rightarrow> 'a list \<Rightarrow> 'a world \<Rightarrow> bool" where
  "serial_inv dst x xcopy neigh xs tbl w \<longleftrightarrow>
     fault w = None \<and> slices w x = xs \<and> slices w neigh = tbl \<and>
     length (slices w xcopy) = length xs \<and> sym_n (mats w dst) = length xs"

definition pool_inv :: "addr \<Rightarrow> addr \<Rightarrow> addr \<Rightarrow> nat \<Rightarrow> 'a list \<Rightarrow> 'a world \<Rightarrow> bool" where
  "pool_inv x neigh base k xs w \<longleftrightarrow>
     fault w = None \<and> slices w x = xs \<and> length (slices w neigh) = length xs \<and>
     (\<forall>c<k. length (slices w (base + c)) = length xs)"

definition hess_inv :: "addr \<Rightarrow> addr \<Rightarrow> addr \<Rightarrow> addr \<Rightarrow> nat \<Rightarrow> 'a list \<Rightarrow> 'a list \<Rightarrow> 'a world \<Rightarrow> bool" where
  "hess_inv dst x neigh base k xs tbl w \<longleftrightarrow>
     fault w = None \<and> slices w x = xs \<and> slices w neigh = tbl \<and>
     (\<forall>c<k. length (slices w (base + c)) = length xs) \<and> sym_n (mats w dst) = length xs"

text \<open>
  The world \<^verbatim>\<open>hessianSerial\<close> ends in, the world \<^verbatim>\<open>Hessian\<close> hands to either path, and the
  outcome of a run that ends in world \<open>W\<close>.
\<close>

definition serial_result ::
  "'a env \<Rightarrow> addr \<Rightarrow> ('a list \<Rightarrow> 'a) \<Rightarrow> addr \<Rightarrow> 'a list \<Rightarrow> 'a \<Rightarrow> 'a \<Rightarrow> 'a world \<Rightarrow> 'a world" where
  "serial_result E dst f xcopy xs step origin w =
     fold (job_effect dst xcopy (stencil_point E xs step) (serial_entry E f xs step origin))
       (hessianProducer (length xs))
       (fold (\<lambda>i. neigh_effect xcopy (nslices w) (shifted E xs step i) (f (shifted E xs step i)) i)
          [0..<length xs]
          (w\<lparr>slices := (slices w)(nslices w := replicate (length xs) (fzero E)),
             nslices := Suc (nslices w)\<rparr>))"

definition prelude ::
  "'a env \<Rightarrow> addr option \<Rightarrow> addr \<Rightarrow> 'a HessianSettings option \<Rightarrow> 'a world \<Rightarrow> 'a world" where
  "prelude E dst x settings w =
     w\<lparr>slices := (slices w)(nslices w :=
          if OriginKnown (settings_of E settings)
          then replicate (length (slices w x)) (fzero E) else slices w x),
       nslices := Suc (nslices w),
       mats := (mats w)(sink_of dst w := sink_before E dst (length (slices w x)) w),
       nmats := (case dst of None \<Rightarrow> Suc (nmats w) | Some d \<Rightarrow> nmats w),
       evals := evals w @ (if OriginKnown (settings_of E settings) then [] else [slices w x])\<rparr>"

definition finish :: "addr \<Rightarrow> 'a world \<Rightarrow> 'a outcome" where
  "finish d W = (case fault W of None \<Rightarrow> Return d W | Some e \<Rightarrow> Panic e W)"

subsection \<open>Concrete inputs\<close>

text \<open>
  A point \<open>xs\<close> at slice address 0 in an otherwise empty world; a scheduler that hands
  the jobs out in reverse order, round robin over the workers; two functions a caller
  may pass, \<^verbatim>\<open>func(x []float64) float64 { return x[0] }\<close> and
  \<^verbatim>\<open>{ return x[0] * x[1] }\<close>, the product rounded as binary64 rounds it; the float64
  values of the Go literals \<^verbatim>\<open>0.1\<close> and \<^verbatim>\<open>0.3\<close>; and the settings
  \<^verbatim>\<open>&HessianSettings{Step: 0.1, Concurrent: true}\<close>.
\<close>

definition world_at :: "rat list \<Rightarrow> rat world" where
  "world_at xs =
     \<lparr>slices = (\<lambda>a. [])(0 := xs), nslices = 1,
      mats = (\<lambda>a. \<lparr>sym_n = 0, sym_cell = (\<lambda>i j. 0)\<rparr>), nmats = 0,
      evals = [], sets = [], fault = None\<rparr>"

definition round_robin :: "'j delivery" where
  "round_robin k js = map (\<lambda>p. (fst p mod k, snd p)) (enumerate 0 (rev js))"

definition reversing :: sched where
  "reversing = \<lparr>neigh_delivery = round_robin, hess_delivery = round_robin\<rparr>"

definition first_coord :: "rat list \<Rightarrow> rat" where
  "first_coord xs = xs ! 0"

definition product :: "rat list \<Rightarrow> rat" where
  "product xs = rne (xs ! 0 * xs ! 1)"

definition tenth :: rat where
  "tenth = 3602879701896397 / 36028797018963968"

definition three_tenths :: rat where
  "three_tenths = 5404319552844595 / 18014398509481984"

text \<open>The same world with an \<open>m\<close>-by-\<open>m\<close> matrix of zeros allocated at matrix address 0.\<close>

definition world_with_sink :: "rat list \<Rightarrow> nat \<Rightarrow> rat world" where
  "world_with_sink xs m =
     (world_at xs)\<lparr>mats := (\<lambda>a. \<lparr>sym_n = 0, sym_cell = (\<lambda>i j. 0)\<rparr>)
                             (0 := \<lparr>sym_n = m, sym_cell = (\<lambda>i j. 0)\<rparr>),
                  nmats := 1\<rparr>"

definition pool_settings :: "rat HessianSettings" where
  "pool_settings = \<lparr>OriginKnown = False, OriginValue = 0, Step = tenth, Concurrent = True\<rparr>"

section \<open>Properties of the model\<close>

subsection \<open>The primitive operations, when they do not panic\<close>

text \<open>
  A panic is pending in no world the proofs below go through, and every index is in range
  there: each operation is then a plain update of the world.
\<close>

lemma copy_sl_eq:
  "fault w = None \<Longrightarrow> length (slices w d) = length (slices w s) \<Longrightarrow>
   copy_sl d s w = w\<lparr>slices := (slices w)(d := slices w s)\<rparr>"
  by (simp add: copy_sl_def)

lemma store_at_eq:
  "fault w = None \<Longrightarrow> i < length (slices w a) \<Longrightarrow>
   store_at a i v w = w\<lparr>slices := (slices w)(a := (slices w a)[i := v])\<rparr>"
  by (simp add: store_at_def)

lemma check_at_eq:
  "fault w = None \<Longrightarrow> i < length (slices w a) \<Longrightarrow> check_at a i w = w"
  by (simp add: check_at_def)

lemma add_at_eq:
  "fault w = None \<Longrightarrow> i < length (slices w a) \<Longrightarrow>
   add_at E a i v w = w\<lparr>slices := (slices w)(a := (slices w a)[i := fadd E (slices w a ! i) v])\<rparr>"
  by (simp add: add_at_def store_at_eq check_at_eq)

lemma sub_at_eq:
  "fault w = None \<Longrightarrow> i < length (slices w a) \<Longrightarrow>
   sub_at E a i v w = w\<lparr>slices := (slices w)(a := (slices w a)[i := fsub E (slices w a ! i) v])\<rparr>"
  by (simp add: sub_at_def store_at_eq check_at_eq)

lemma call_eq:
  "fault w = None \<Longrightarrow> call a w = w\<lparr>evals := evals w @ [slices w a]\<rparr>"
  by (simp add: call_def)

lemma SetSym_eq:
  "fault w = None \<Longrightarrow> i < sym_n (mats w m) \<Longrightarrow> j < sym_n (mats w m) \<Longrightarrow>
   SetSym m i j v w = w\<lparr>mats := (mats w)(m := set_cell i j v (mats w m)),
                         sets := sets w @ [(m, i, j, v)]\<rparr>"
  by (simp add: SetSym_def)

lemmas op_eqs = copy_sl_eq store_at_eq check_at_eq add_at_eq sub_at_eq call_eq SetSym_eq

lemma make_slice_eq:
  "fault w = None \<Longrightarrow>
   make_slice E n w =
     (nslices w, w\<lparr>slices := (slices w)(nslices w := replicate n (fzero E)),
                    nslices := Suc (nslices w)\<rparr>)"
  by (simp add: make_slice_def)

lemma make_workers_fields:
  "fault (make_workers E k n w) = fault w"
  "mats (make_workers E k n w) = mats w"
  "nmats (make_workers E k n w) = nmats w"
  "evals (make_workers E k n w) = evals w"
  "sets (make_workers E k n w) = sets w"
  by (induction k arbitrary: w; simp add: make_slice_def)+

lemma make_workers_nslices:
  "fault w = None \<Longrightarrow> nslices (make_workers E k n w) = nslices w + k"
  by (induction k arbitrary: w) (simp_all add: make_slice_def)

lemma make_workers_old:
  "a < nslices w \<Longrightarrow> slices (make_workers E k n w) a = slices w a"
  by (induction k arbitrary: w) (simp_all add: make_slice_def)

lemma make_workers_new:
  "fault w = None \<Longrightarrow> c < k \<Longrightarrow>
   slices (make_workers E k n w) (nslices w + c) = replicate n (fzero E)"
proof (induction k arbitrary: w c)
  case 0
  then show ?case by simp
next
  case (Suc k)
  let ?w1 = "snd (make_slice E n w)"
  have f1: "fault ?w1 = None" and n1: "nslices ?w1 = Suc (nslices w)"
    and s1: "slices ?w1 (nslices w) = replicate n (fzero E)"
    using Suc.prems by (simp_all add: make_slice_def)
  show ?case
  proof (cases c)
    case 0
    then show ?thesis using make_workers_old[of "nslices w" ?w1 E k n] n1 s1 by simp
  next
    case (Suc c')
    then show ?thesis using Suc.IH[OF f1, of c'] Suc.prems n1 by simp
  qed
qed

subsection \<open>One job\<close>

text \<open>
  The net effect of the body of each loop and of each worker's job, for a world in which
  the scratch slice, the table of neighbours and the point are distinct slices of the
  length of the point.
\<close>

lemma serial_neigh_eff:
  assumes "fault w = None" "xcopy \<noteq> x" "neigh \<noteq> x" "neigh \<noteq> xcopy"
    "length (slices w xcopy) = length (slices w x)" "i < length (slices w x)"
    "length (slices w neigh) = length (slices w x)"
  shows "serial_neigh E f x xcopy neigh step i w =
         neigh_effect xcopy neigh (shifted E (slices w x) step i) (f (shifted E (slices w x) step i)) i w"
  using assms
  by (simp add: serial_neigh_def neigh_effect_def shifted_def op_eqs Let_def fun_upd_twist)

lemma serial_diag_eff:
  assumes "fault w = None" "xcopy \<noteq> x" "neigh \<noteq> x" "neigh \<noteq> xcopy"
    "length (slices w xcopy) = length (slices w x)" "i < length (slices w x)"
    "length (slices w neigh) = length (slices w x)" "sym_n (mats w dst) = length (slices w x)"
  shows "serial_diag E dst f x xcopy neigh step origin i w =
         entry_effect dst xcopy (shifted_back E (slices w x) step i)
           (fdiv E (fsub E (fdiv E (fsub E (slices w neigh ! i) origin) step)
                           (fdiv E (fsub E origin (f (shifted_back E (slices w x) step i))) step)) step) i i w"
  using assms
  by (simp add: serial_diag_def entry_effect_def shifted_back_def op_eqs Let_def)

lemma serial_off_eff:
  assumes "fault w = None" "xcopy \<noteq> x" "neigh \<noteq> x" "neigh \<noteq> xcopy"
    "length (slices w xcopy) = length (slices w x)" "i < length (slices w x)"
    "j < length (slices w x)"
    "length (slices w neigh) = length (slices w x)" "sym_n (mats w dst) = length (slices w x)"
  shows "serial_off E dst f x xcopy neigh step origin i j w =
         entry_effect dst xcopy (shifted E (shifted E (slices w x) step i) step j)
           (fdiv E (fsub E (fdiv E (fsub E (f (shifted E (shifted E (slices w x) step i) step j))
                                           (slices w neigh ! j)) step)
                           (fdiv E (fsub E (slices w neigh ! i) origin) step)) step) i j w"
  using assms
  by (simp add: serial_off_def entry_effect_def shifted_def op_eqs Let_def)

lemma neigh_job_eff:
  assumes "fault w = None" "base + wk \<noteq> x" "neigh \<noteq> x" "neigh \<noteq> base + wk"
    "length (slices w (base + wk)) = length (slices w x)" "i < length (slices w x)"
    "length (slices w neigh) = length (slices w x)"
  shows "neigh_job E f x neigh step base (wk, i) w =
         neigh_effect (base + wk) neigh (shifted E (slices w x) step i)
           (f (shifted E (slices w x) step i)) i w"
  using assms
  by (simp add: neigh_job_def neigh_effect_def shifted_def op_eqs Let_def fun_upd_twist)

lemma hess_job_diag_eff:
  assumes "fault w = None" "base + wk \<noteq> x" "neigh \<noteq> x" "neigh \<noteq> base + wk"
    "length (slices w (base + wk)) = length (slices w x)" "i < length (slices w x)"
    "length (slices w neigh) = length (slices w x)" "sym_n (mats w dst) = length (slices w x)"
  shows "hess_job E dst f x neigh step origin base (wk, hessJob i i) w =
         entry_effect dst (base + wk) (shifted_back E (slices w x) step i)
           (fdiv E (fdiv E (fsub E (fadd E (fsub E (f (shifted_back E (slices w x) step i)) origin)
                                            (slices w neigh ! i)) origin) step) step) i i w"
  using assms
  by (simp add: hess_job_def entry_effect_def shifted_back_def op_eqs Let_def)

lemma hess_job_off_eff:
  assumes "fault w = None" "base + wk \<noteq> x" "neigh \<noteq> x" "neigh \<noteq> base + wk"
    "length (slices w (base + wk)) = length (slices w x)" "i < length (slices w x)"
    "j < length (slices w x)" "i \<noteq> j"
    "length (slices w neigh) = length (slices w x)" "sym_n (mats w dst) = length (slices w x)"
  shows "hess_job E dst f x neigh step origin base (wk, hessJob i j) w =
         entry_effect dst (base + wk) (shifted E (shifted E (slices w x) step i) step j)
           (fdiv E (fdiv E (fsub E (fadd E (fsub E (f (shifted E (shifted E (slices w x) step i) step j))
                                                   (slices w neigh ! j)) origin)
                                   (slices w neigh ! i)) step) step) i j w"
  using assms
  by (simp add: hess_job_def entry_effect_def shifted_def op_eqs Let_def)

subsection \<open>Runs of jobs\<close>

text \<open>
  A loop whose bodies act as their net effects under an invariant is the run of the net
  effects; what a run of net effects leaves in each component of the world.
\<close>

lemma fold_replace:
  assumes "I w" "\<And>j w. j \<in> set js \<Longrightarrow> I w \<Longrightarrow> body j w = eff j w \<and> I (eff j w)"
  shows "fold body js w = fold eff js w \<and> I (fold eff js w)"
  using assms
proof (induction js arbitrary: w)
  case Nil
  then show ?case by simp
next
  case (Cons j js)
  have s: "body j w = eff j w" "I (eff j w)" using Cons.prems by auto
  have "fold body js (eff j w) = fold eff js (eff j w) \<and> I (fold eff js (eff j w))"
    by (rule Cons.IH) (use s Cons.prems in auto)
  with s show ?case by simp
qed

lemma fold_concat_map:
  "fold f (concat (map g xs)) w = fold (\<lambda>x. fold f (g x)) xs w"
  by (induction xs arbitrary: w) simp_all

lemma fold_neigh_effect_fields:
  "evals (fold (\<lambda>p. neigh_effect (sc p) neigh (pt p) (vl p) (ix p)) ps w) = evals w @ map pt ps"
  "fault (fold (\<lambda>p. neigh_effect (sc p) neigh (pt p) (vl p) (ix p)) ps w) = fault w"
  "mats (fold (\<lambda>p. neigh_effect (sc p) neigh (pt p) (vl p) (ix p)) ps w) = mats w"
  "sets (fold (\<lambda>p. neigh_effect (sc p) neigh (pt p) (vl p) (ix p)) ps w) = sets w"
  "nslices (fold (\<lambda>p. neigh_effect (sc p) neigh (pt p) (vl p) (ix p)) ps w) = nslices w"
  "nmats (fold (\<lambda>p. neigh_effect (sc p) neigh (pt p) (vl p) (ix p)) ps w) = nmats w"
  by (induction ps arbitrary: w; simp add: neigh_effect_def)+

lemma fold_neigh_effect_table:
  "\<forall>p\<in>set ps. sc p \<noteq> neigh \<Longrightarrow>
   slices (fold (\<lambda>p. neigh_effect (sc p) neigh (pt p) (vl p) (ix p)) ps w) neigh =
   fold (\<lambda>p t. t[ix p := vl p]) ps (slices w neigh)"
  by (induction ps arbitrary: w) (auto simp add: neigh_effect_def)

lemma fold_update_length:
  "length (fold (\<lambda>p t. t[ix p := g (ix p)]) ps t) = length t"
  by (induction ps arbitrary: t) auto

lemma fold_update_nth:
  "k < length t \<Longrightarrow>
   fold (\<lambda>p t. t[ix p := g (ix p)]) ps t ! k = (if k \<in> ix ` set ps then g k else t ! k)"
proof (induction ps arbitrary: t)
  case Nil
  then show ?case by simp
next
  case (Cons p ps)
  then show ?case by (auto simp add: nth_list_update)
qed

lemma fold_update_table:
  assumes "length t = n" "ix ` set ps = {0..<n}"
  shows "fold (\<lambda>p t. t[ix p := g (ix p)]) ps t = map g [0..<n]"
proof (rule nth_equalityI)
  show "length (fold (\<lambda>p t. t[ix p := g (ix p)]) ps t) = length (map g [0..<n])"
    using assms by (simp add: fold_update_length)
next
  fix k assume "k < length (fold (\<lambda>p t. t[ix p := g (ix p)]) ps t)"
  then have k: "k < n" using assms by (simp add: fold_update_length)
  then show "fold (\<lambda>p t. t[ix p := g (ix p)]) ps t ! k = map g [0..<n] ! k"
    using assms by (simp add: fold_update_nth)
qed

lemma fold_entry_effect_fields:
  "evals (fold (\<lambda>p. entry_effect dst (sc p) (pt p) (vl p) (ji p) (jj p)) ps w) = evals w @ map pt ps"
  "sets (fold (\<lambda>p. entry_effect dst (sc p) (pt p) (vl p) (ji p) (jj p)) ps w) =
     sets w @ map (\<lambda>p. (dst, ji p, jj p, vl p)) ps"
  "fault (fold (\<lambda>p. entry_effect dst (sc p) (pt p) (vl p) (ji p) (jj p)) ps w) = fault w"
  "nslices (fold (\<lambda>p. entry_effect dst (sc p) (pt p) (vl p) (ji p) (jj p)) ps w) = nslices w"
  "nmats (fold (\<lambda>p. entry_effect dst (sc p) (pt p) (vl p) (ji p) (jj p)) ps w) = nmats w"
  by (induction ps arbitrary: w; simp add: entry_effect_def)+

lemma fold_entry_effect_mats:
  "mats (fold (\<lambda>p. entry_effect dst (sc p) (pt p) (vl p) (ji p) (jj p)) ps w) =
   (mats w)(dst := fold (\<lambda>p. set_cell (ji p) (jj p) (vl p)) ps (mats w dst))"
  by (induction ps arbitrary: w) (simp_all add: entry_effect_def)

lemma fold_set_cell_n:
  "sym_n (fold (\<lambda>p. set_cell (ji p) (jj p) (vl p)) ps m) = sym_n m"
  by (induction ps arbitrary: m) (simp_all add: set_cell_def)

lemma sym_cell_set_cell:
  "i \<le> j \<Longrightarrow> sym_cell (set_cell i j v m) a b = (if a = i \<and> b = j then v else sym_cell m a b)"
  by (simp add: set_cell_def min_def max_def)

lemma fold_set_cell_cell:
  assumes "\<And>p. p \<in> set ps \<Longrightarrow> ji p \<le> jj p"
  shows "sym_cell (fold (\<lambda>p. set_cell (ji p) (jj p) (g (ji p) (jj p))) ps m) a b =
         (if (a, b) \<in> (\<lambda>p. (ji p, jj p)) ` set ps then g a b else sym_cell m a b)"
  using assms
proof (induction ps arbitrary: m)
  case Nil
  then show ?case by simp
next
  case (Cons p ps)
  have le: "ji p \<le> jj p" using Cons.prems by simp
  have "sym_cell (fold (\<lambda>p. set_cell (ji p) (jj p) (g (ji p) (jj p))) ps
          (set_cell (ji p) (jj p) (g (ji p) (jj p)) m)) a b =
        (if (a, b) \<in> (\<lambda>p. (ji p, jj p)) ` set ps then g a b
         else sym_cell (set_cell (ji p) (jj p) (g (ji p) (jj p)) m) a b)"
    by (rule Cons.IH) (use Cons.prems in simp)
  then show ?case using le by (auto simp add: sym_cell_set_cell)
qed

lemma fold_neigh_effect_other:
  "a \<noteq> neigh \<Longrightarrow> \<forall>p\<in>set ps. sc p \<noteq> a \<Longrightarrow>
   slices (fold (\<lambda>p. neigh_effect (sc p) neigh (pt p) (vl p) (ix p)) ps w) a = slices w a"
  by (induction ps arbitrary: w) (auto simp add: neigh_effect_def)

lemma fold_neigh_effect_scratch:
  "\<forall>p\<in>set ps. sc p \<noteq> neigh \<Longrightarrow> \<forall>p\<in>set ps. length (pt p) = n \<Longrightarrow> length (slices w a) = n \<Longrightarrow> a \<noteq> neigh \<Longrightarrow>
   length (slices (fold (\<lambda>p. neigh_effect (sc p) neigh (pt p) (vl p) (ix p)) ps w) a) = n"
  by (induction ps arbitrary: w) (auto simp add: neigh_effect_def)

lemma fold_entry_effect_other:
  "\<forall>p\<in>set ps. sc p \<noteq> a \<Longrightarrow>
   slices (fold (\<lambda>p. entry_effect dst (sc p) (pt p) (vl p) (ji p) (jj p)) ps w) a = slices w a"
  by (induction ps arbitrary: w) (auto simp add: entry_effect_def)

lemma fold_set_cell_more:
  "SymDense.more (fold (\<lambda>p. set_cell (ji p) (jj p) (vl p)) ps m) = SymDense.more m"
  by (induction ps arbitrary: m) (simp_all add: set_cell_def)

lemma fold_set_cell_filled:
  assumes "\<And>job. job \<in> jb ` set ps \<longleftrightarrow> job_i job \<le> job_j job \<and> job_j job < n"
  shows "fold (\<lambda>p. set_cell (job_i (jb p)) (job_j (jb p)) (vl (job_i (jb p)) (job_j (jb p)))) ps m =
         filled n vl m"
proof (rule SymDense.equality)
  show "sym_n (fold (\<lambda>p. set_cell (job_i (jb p)) (job_j (jb p)) (vl (job_i (jb p)) (job_j (jb p)))) ps m) =
        sym_n (filled n vl m)"
    by (simp add: fold_set_cell_n filled_def)
next
  have le: "job_i (jb p) \<le> job_j (jb p)" if "p \<in> set ps" for p
    using assms[of "jb p"] that by auto
  have im: "(a, b) \<in> (\<lambda>p. (job_i (jb p), job_j (jb p))) ` set ps \<longleftrightarrow> a \<le> b \<and> b < n" for a b
  proof
    assume "(a, b) \<in> (\<lambda>p. (job_i (jb p), job_j (jb p))) ` set ps"
    then obtain p where "p \<in> set ps" "a = job_i (jb p)" "b = job_j (jb p)" by auto
    then show "a \<le> b \<and> b < n" using assms[of "jb p"] by auto
  next
    assume "a \<le> b \<and> b < n"
    then have "hessJob a b \<in> jb ` set ps" using assms[of "hessJob a b"] by simp
    then obtain p where "p \<in> set ps" "jb p = hessJob a b" by auto
    then show "(a, b) \<in> (\<lambda>p. (job_i (jb p), job_j (jb p))) ` set ps" by force
  qed
  show "sym_cell (fold (\<lambda>p. set_cell (job_i (jb p)) (job_j (jb p)) (vl (job_i (jb p)) (job_j (jb p)))) ps m) =
        sym_cell (filled n vl m)"
  proof (intro ext)
    fix a b
    show "sym_cell (fold (\<lambda>p. set_cell (job_i (jb p)) (job_j (jb p)) (vl (job_i (jb p)) (job_j (jb p)))) ps m) a b =
        sym_cell (filled n vl m) a b"
      using fold_set_cell_cell[of ps "\<lambda>p. job_i (jb p)" "\<lambda>p. job_j (jb p)" vl m a b] le im
      by (simp add: filled_def)
  qed
next
  show "SymDense.more (fold (\<lambda>p. set_cell (job_i (jb p)) (job_j (jb p)) (vl (job_i (jb p)) (job_j (jb p)))) ps m) =
        SymDense.more (filled n vl m)"
    by simp
qed


subsection \<open>The jobs the producer sends\<close>

lemma hessianProducer_rows: "hessianProducer n = concat (map (row_jobs n) [0..<n])"
  by (simp add: hessianProducer_def row_jobs_def[abs_def])

lemma row_jobs_mem:
  "hessJob i j \<in> set (row_jobs n k) \<longleftrightarrow> i = k \<and> (j = i \<or> i < j \<and> j < n)"
  by (auto simp add: row_jobs_def)

lemma row_jobs_bounds:
  "i < n \<Longrightarrow> job \<in> set (row_jobs n i) \<Longrightarrow> job_i job = i \<and> i \<le> job_j job \<and> job_j job < n"
  by (auto simp add: row_jobs_def)

lemma hessianProducer_bounds:
  "job \<in> set (hessianProducer n) \<Longrightarrow> job_i job \<le> job_j job \<and> job_j job < n"
  by (auto simp add: hessianProducer_rows dest: row_jobs_bounds)

lemma hessianProducer_mem:
  "hessJob i j \<in> set (hessianProducer n) \<longleftrightarrow> i \<le> j \<and> j < n"
  by (auto simp add: hessianProducer_rows row_jobs_mem)

lemma hessianProducer_set:
  "set (hessianProducer n) = {job. job_i job \<le> job_j job \<and> job_j job < n}"
proof (rule set_eqI)
  fix job
  show "job \<in> set (hessianProducer n) \<longleftrightarrow> job \<in> {job. job_i job \<le> job_j job \<and> job_j job < n}"
    by (cases job) (simp add: hessianProducer_mem)
qed

lemma row_jobs_distinct: "distinct (row_jobs n i)"
  by (auto simp add: row_jobs_def distinct_map inj_on_def)

lemma hessianProducer_distinct: "distinct (hessianProducer n)"
  unfolding hessianProducer_rows
proof (rule distinct_concat)
  show "distinct (map (row_jobs n) [0..<n])"
    by (auto simp add: distinct_map inj_on_def row_jobs_def)
  show "\<And>ys. ys \<in> set (map (row_jobs n) [0..<n]) \<Longrightarrow> distinct ys"
    by (auto simp add: row_jobs_distinct)
  show "\<And>ys zs. ys \<in> set (map (row_jobs n) [0..<n]) \<Longrightarrow> zs \<in> set (map (row_jobs n) [0..<n])
          \<Longrightarrow> ys \<noteq> zs \<Longrightarrow> set ys \<inter> set zs = {}"
    by (auto simp add: row_jobs_def)
qed

lemma row_jobs_length: "i < n \<Longrightarrow> length (row_jobs n i) = n - i"
  by (simp add: row_jobs_def)

lemma sum_rows: "(\<Sum>i\<leftarrow>[0..<n]. n - i) = n + n * (n - 1) div 2"
proof -
  have "(\<Sum>i\<in>{0..<n}. n - i) = n + n * (n - 1) div 2"
  proof (induction n)
    case 0
    then show ?case by simp
  next
    case (Suc n)
    have "(\<Sum>i\<in>{0..<Suc n}. Suc n - i) = (\<Sum>i\<in>{0..<n}. Suc n - i) + 1"
      by simp
    also have "(\<Sum>i\<in>{0..<n}. Suc n - i) = (\<Sum>i\<in>{0..<n}. (n - i) + 1)"
      by (rule sum.cong) (auto simp add: Suc_diff_le)
    also have "\<dots> = (\<Sum>i\<in>{0..<n}. n - i) + n"
      unfolding sum.distrib by simp
    finally have "(\<Sum>i\<in>{0..<Suc n}. Suc n - i) = (n + n * (n - 1) div 2) + n + 1"
      using Suc by simp
    moreover have "Suc n * (Suc n - 1) div 2 = n + n * (n - 1) div 2"
    proof -
      have "Suc n * (Suc n - 1) = n * (n - 1) + n * 2"
        by (cases n) (simp_all add: algebra_simps)
      then show ?thesis by simp
    qed
    ultimately show ?case by simp
  qed
  then show ?thesis by (simp add: interv_sum_list_conv_sum_set_nat)
qed

lemma hessianProducer_length: "length (hessianProducer n) = n + n * (n - 1) div 2"
proof -
  have "length (hessianProducer n) = (\<Sum>i\<leftarrow>[0..<n]. length (row_jobs n i))"
    by (simp add: hessianProducer_rows length_concat comp_def)
  also have "\<dots> = (\<Sum>i\<leftarrow>[0..<n]. n - i)"
    by (rule arg_cong[where f = sum_list]) (simp add: row_jobs_length)
  finally show ?thesis by (simp add: sum_rows)
qed

lemma filter_distinct_one:
  "distinct xs \<Longrightarrow> x \<in> set xs \<Longrightarrow> length (filter (\<lambda>y. y = x) xs) = 1"
  by (induction xs) (auto simp add: filter_empty_conv)

subsection \<open>Fair deliveries\<close>

lemma fair_set: "fair d k js \<Longrightarrow> snd ` set (d k js) = set js"
  unfolding fair_def using mset_eq_setD[of "map snd (d k js)" js] by simp

lemma fair_worker: "fair d k js \<Longrightarrow> p \<in> set (d k js) \<Longrightarrow> fst p < k"
  by (simp add: fair_def)

lemma fair_length: "fair d k js \<Longrightarrow> length (d k js) = length js"
  unfolding fair_def using mset_eq_length[of "map snd (d k js)" js] by simp

subsection \<open>hessianSerial\<close>

lemma shifted_length [simp]: "length (shifted E xs step i) = length xs"
  by (simp add: shifted_def)

lemma shifted_back_length [simp]: "length (shifted_back E xs step i) = length xs"
  by (simp add: shifted_back_def)

lemma stencil_point_length [simp]: "length (stencil_point E xs step i j) = length xs"
  by (simp add: stencil_point_def)

lemma serial_phaseA:
  assumes w: "fault w = None" "slices w x = xs" "length (slices w xcopy) = length xs"
      "length (slices w neigh) = length xs"
    and ne: "xcopy \<noteq> x" "neigh \<noteq> x" "neigh \<noteq> xcopy"
    and js: "\<forall>i\<in>set js. i < length xs"
  shows "fold (serial_neigh E f x xcopy neigh step) js w =
         fold (\<lambda>i. neigh_effect xcopy neigh (shifted E xs step i) (f (shifted E xs step i)) i) js w"
proof -
  define I where "I = (\<lambda>w'::'a world. fault w' = None \<and> slices w' x = xs \<and>
     length (slices w' xcopy) = length xs \<and> length (slices w' neigh) = length xs)"
  have "I w" using w by (simp add: I_def)
  moreover have "serial_neigh E f x xcopy neigh step i v =
        neigh_effect xcopy neigh (shifted E xs step i) (f (shifted E xs step i)) i v \<and>
        I (neigh_effect xcopy neigh (shifted E xs step i) (f (shifted E xs step i)) i v)"
    if "i \<in> set js" "I v" for i v
  proof
    show "serial_neigh E f x xcopy neigh step i v =
        neigh_effect xcopy neigh (shifted E xs step i) (f (shifted E xs step i)) i v"
      using that js ne serial_neigh_eff[of v xcopy x neigh i E f step] by (simp add: I_def)
    show "I (neigh_effect xcopy neigh (shifted E xs step i) (f (shifted E xs step i)) i v)"
      using that ne by (simp add: I_def neigh_effect_def)
  qed
  ultimately show ?thesis
    using fold_replace[of I w js "serial_neigh E f x xcopy neigh step"
        "\<lambda>i. neigh_effect xcopy neigh (shifted E xs step i) (f (shifted E xs step i)) i"]
    by blast
qed

lemma serial_entry_step:
  assumes inv: "serial_inv dst x xcopy neigh xs tbl w"
    and ne: "xcopy \<noteq> x" "neigh \<noteq> x" "neigh \<noteq> xcopy"
    and tbl: "tbl = map (\<lambda>i. f (shifted E xs step i)) [0..<length xs]"
    and ij: "i \<le> j" "j < length xs"
  shows "(if i = j then serial_diag E dst f x xcopy neigh step origin i w
          else serial_off E dst f x xcopy neigh step origin i j w) =
         entry_effect dst xcopy (stencil_point E xs step i j)
           (serial_entry E f xs step origin i j) i j w"
    and "serial_inv dst x xcopy neigh xs tbl
           (entry_effect dst xcopy (stencil_point E xs step i j)
              (serial_entry E f xs step origin i j) i j w)"
proof -
  have len: "length (slices w neigh) = length xs" using inv tbl by (simp add: serial_inv_def)
  show "(if i = j then serial_diag E dst f x xcopy neigh step origin i w
          else serial_off E dst f x xcopy neigh step origin i j w) =
         entry_effect dst xcopy (stencil_point E xs step i j)
           (serial_entry E f xs step origin i j) i j w"
  proof (cases "i = j")
    case True
    then show ?thesis
      using inv ne ij tbl len serial_diag_eff[of w xcopy x neigh i dst E f step origin]
      by (simp add: serial_inv_def stencil_point_def serial_entry_def)
  next
    case False
    then show ?thesis
      using inv ne ij tbl len serial_off_eff[of w xcopy x neigh i j dst E f step origin]
      by (simp add: serial_inv_def stencil_point_def serial_entry_def)
  qed
  show "serial_inv dst x xcopy neigh xs tbl
           (entry_effect dst xcopy (stencil_point E xs step i j)
              (serial_entry E f xs step origin i j) i j w)"
    using inv ne by (simp add: serial_inv_def entry_effect_def set_cell_def)
qed

lemma serial_row_eq:
  assumes inv: "serial_inv dst x xcopy neigh xs tbl w"
    and ne: "xcopy \<noteq> x" "neigh \<noteq> x" "neigh \<noteq> xcopy"
    and tbl: "tbl = map (\<lambda>i. f (shifted E xs step i)) [0..<length xs]"
    and i: "i < length xs"
  shows "serial_row E dst f x xcopy neigh step origin i w =
         fold (job_effect dst xcopy (stencil_point E xs step) (serial_entry E f xs step origin))
           (row_jobs (length xs) i) w \<and>
         serial_inv dst x xcopy neigh xs tbl
           (fold (job_effect dst xcopy (stencil_point E xs step) (serial_entry E f xs step origin))
              (row_jobs (length xs) i) w)"
proof -
  let ?eff = "job_effect dst xcopy (stencil_point E xs step) (serial_entry E f xs step origin)"
  let ?w1 = "serial_diag E dst f x xcopy neigh step origin i w"
  have d: "?w1 = ?eff (hessJob i i) w"
    using serial_entry_step(1)[OF inv ne tbl, of i i origin] i by (simp add: job_effect_def)
  have inv1: "serial_inv dst x xcopy neigh xs tbl (?eff (hessJob i i) w)"
    using serial_entry_step(2)[OF inv ne tbl, of i i origin] i by (simp add: job_effect_def)
  have len: "length (slices (?eff (hessJob i i) w) x) = length xs"
    using inv1 by (simp add: serial_inv_def)
  have step: "serial_off E dst f x xcopy neigh step origin i j v = ?eff (hessJob i j) v \<and>
        serial_inv dst x xcopy neigh xs tbl (?eff (hessJob i j) v)"
    if "j \<in> set [i + 1..<length xs]" "serial_inv dst x xcopy neigh xs tbl v" for j v
    using serial_entry_step[OF that(2) ne tbl, of i j origin] that(1)
    by (simp add: job_effect_def)
  have r: "fold (serial_off E dst f x xcopy neigh step origin i) [i + 1..<length xs] (?eff (hessJob i i) w) =
        fold (\<lambda>j. ?eff (hessJob i j)) [i + 1..<length xs] (?eff (hessJob i i) w) \<and>
        serial_inv dst x xcopy neigh xs tbl
          (fold (\<lambda>j. ?eff (hessJob i j)) [i + 1..<length xs] (?eff (hessJob i i) w))"
    by (rule fold_replace[where I = "serial_inv dst x xcopy neigh xs tbl"]) (use inv1 step in auto)
  have f: "fold ?eff (row_jobs (length xs) i) w =
        fold (\<lambda>j. ?eff (hessJob i j)) [i + 1..<length xs] (?eff (hessJob i i) w)"
    by (simp add: row_jobs_def fold_map comp_def)
  have "serial_row E dst f x xcopy neigh step origin i w =
        fold (serial_off E dst f x xcopy neigh step origin i) [i + 1..<length xs] (?eff (hessJob i i) w)"
    unfolding serial_row_def Let_def d len ..
  with r f show ?thesis by simp
qed

lemma serial_phaseB:
  assumes inv: "serial_inv dst x xcopy neigh xs tbl w"
    and ne: "xcopy \<noteq> x" "neigh \<noteq> x" "neigh \<noteq> xcopy"
    and tbl: "tbl = map (\<lambda>i. f (shifted E xs step i)) [0..<length xs]"
  shows "fold (serial_row E dst f x xcopy neigh step origin) [0..<length xs] w =
         fold (job_effect dst xcopy (stencil_point E xs step) (serial_entry E f xs step origin))
           (hessianProducer (length xs)) w"
proof -
  let ?eff = "job_effect dst xcopy (stencil_point E xs step) (serial_entry E f xs step origin)"
  have "fold (serial_row E dst f x xcopy neigh step origin) [0..<length xs] w =
        fold (\<lambda>i. fold ?eff (row_jobs (length xs) i)) [0..<length xs] w \<and>
        serial_inv dst x xcopy neigh xs tbl
          (fold (\<lambda>i. fold ?eff (row_jobs (length xs) i)) [0..<length xs] w)"
    by (rule fold_replace[where I = "serial_inv dst x xcopy neigh xs tbl"])
       (use inv serial_row_eq[OF _ ne tbl] in auto)
  then show ?thesis
    by (simp add: hessianProducer_rows fold_concat_map)
qed

lemma hessianSerial_eq:
  assumes w: "fault w = None" "slices w x = xs" "length (slices w xcopy) = length xs"
      "sym_n (mats w dst) = length xs"
    and a: "xcopy \<noteq> x" "x < nslices w" "xcopy < nslices w"
  shows "hessianSerial E dst f x xcopy step origin w = serial_result E dst f xcopy xs step origin w"
proof -
  let ?n = "length xs"
  let ?neigh = "nslices w"
  let ?w1 = "w\<lparr>slices := (slices w)(?neigh := replicate ?n (fzero E)), nslices := Suc ?neigh\<rparr>"
  let ?effA = "\<lambda>i. neigh_effect xcopy ?neigh (shifted E xs step i) (f (shifted E xs step i)) i"
  let ?tbl = "map (\<lambda>i. f (shifted E xs step i)) [0..<?n]"
  have ne: "xcopy \<noteq> x" "?neigh \<noteq> x" "?neigh \<noteq> xcopy" using a by auto
  have A: "fold (serial_neigh E f x xcopy ?neigh step) [0..<?n] ?w1 = fold ?effA [0..<?n] ?w1"
    by (rule serial_phaseA) (use w ne in auto)
  have tbl: "slices (fold ?effA [0..<?n] ?w1) ?neigh = ?tbl"
    using ne by (simp add: fold_neigh_effect_table fold_update_table[where ix = "\<lambda>i. i"])
  have inv: "serial_inv dst x xcopy ?neigh xs ?tbl (fold ?effA [0..<?n] ?w1)"
    unfolding serial_inv_def
    using w ne tbl
    by (simp add: fold_neigh_effect_fields fold_neigh_effect_other
        fold_neigh_effect_scratch[where n = ?n])
  have B: "fold (serial_row E dst f x xcopy ?neigh step origin) [0..<?n] (fold ?effA [0..<?n] ?w1) =
        fold (job_effect dst xcopy (stencil_point E xs step) (serial_entry E f xs step origin))
          (hessianProducer ?n) (fold ?effA [0..<?n] ?w1)"
    by (rule serial_phaseB[OF inv ne refl])
  have l1: "length (slices ?w1 xcopy) = ?n" using w ne by simp
  have l2: "length (slices (fold ?effA [0..<?n] ?w1) xcopy) = ?n"
    using inv by (simp add: serial_inv_def)
  have m: "make_slice E (length (slices w x)) w = (?neigh, ?w1)"
    using w by (simp add: make_slice_eq)
  show ?thesis
    unfolding hessianSerial_def serial_result_def m prod.case Let_def l1 A l2 B ..
qed

lemma hessianSerial_facts:
  assumes w: "fault w = None" "slices w x = xs" "length (slices w xcopy) = length xs"
      "sym_n (mats w dst) = length xs"
    and a: "xcopy \<noteq> x" "x < nslices w" "xcopy < nslices w"
  shows "fault (hessianSerial E dst f x xcopy step origin w) = None"
    and "nmats (hessianSerial E dst f x xcopy step origin w) = nmats w"
    and "\<forall>a<nslices w. a \<noteq> xcopy \<longrightarrow> slices (hessianSerial E dst f x xcopy step origin w) a = slices w a"
    and "evals (hessianSerial E dst f x xcopy step origin w) =
         evals w @ map (shifted E xs step) [0..<length xs] @
         map (\<lambda>job. stencil_point E xs step (job_i job) (job_j job)) (hessianProducer (length xs))"
    and "sets (hessianSerial E dst f x xcopy step origin w) =
         sets w @ map (\<lambda>job. (dst, job_i job, job_j job,
                               serial_entry E f xs step origin (job_i job) (job_j job)))
                    (hessianProducer (length xs))"
    and "mats (hessianSerial E dst f x xcopy step origin w) =
         (mats w)(dst := filled (length xs) (serial_entry E f xs step origin) (mats w dst))"
proof -
  have eq: "hessianSerial E dst f x xcopy step origin w = serial_result E dst f xcopy xs step origin w"
    by (rule hessianSerial_eq[OF w a])
  have fl: "fold (\<lambda>job. set_cell (job_i job) (job_j job)
                (serial_entry E f xs step origin (job_i job) (job_j job)))
              (hessianProducer (length xs)) m =
            filled (length xs) (serial_entry E f xs step origin) m" for m
    using fold_set_cell_filled[of "\<lambda>job. job" "hessianProducer (length xs)" "length xs"
        "serial_entry E f xs step origin" m]
    by (simp add: hessianProducer_set)
  show "fault (hessianSerial E dst f x xcopy step origin w) = None"
    unfolding eq serial_result_def job_effect_def[abs_def]
    using w by (simp add: fold_entry_effect_fields fold_neigh_effect_fields)
  show "nmats (hessianSerial E dst f x xcopy step origin w) = nmats w"
    unfolding eq serial_result_def job_effect_def[abs_def]
    by (simp add: fold_entry_effect_fields fold_neigh_effect_fields)
  show "\<forall>a<nslices w. a \<noteq> xcopy \<longrightarrow> slices (hessianSerial E dst f x xcopy step origin w) a = slices w a"
    unfolding eq serial_result_def job_effect_def[abs_def]
    by (simp add: fold_entry_effect_other fold_neigh_effect_other)
  show "evals (hessianSerial E dst f x xcopy step origin w) =
         evals w @ map (shifted E xs step) [0..<length xs] @
         map (\<lambda>job. stencil_point E xs step (job_i job) (job_j job)) (hessianProducer (length xs))"
    unfolding eq serial_result_def job_effect_def[abs_def]
    by (simp add: fold_entry_effect_fields fold_neigh_effect_fields)
  show "sets (hessianSerial E dst f x xcopy step origin w) =
         sets w @ map (\<lambda>job. (dst, job_i job, job_j job,
                               serial_entry E f xs step origin (job_i job) (job_j job)))
                    (hessianProducer (length xs))"
    unfolding eq serial_result_def job_effect_def[abs_def]
    by (simp add: fold_entry_effect_fields fold_neigh_effect_fields)
  show "mats (hessianSerial E dst f x xcopy step origin w) =
         (mats w)(dst := filled (length xs) (serial_entry E f xs step origin) (mats w dst))"
    unfolding eq serial_result_def job_effect_def[abs_def]
    by (simp add: fold_entry_effect_mats fold_neigh_effect_fields fl)
qed

subsection \<open>hessianConcurrent\<close>

lemma conc_phaseA:
  assumes inv: "pool_inv x neigh base k xs w"
    and ne: "x < neigh" "neigh < base"
    and d: "\<forall>p\<in>set d. fst p < k \<and> snd p < length xs"
  shows "fold (neigh_job E f x neigh step base) d w =
         fold (\<lambda>p. neigh_effect (base + fst p) neigh (shifted E xs step (snd p))
                     (f (shifted E xs step (snd p))) (snd p)) d w \<and>
         pool_inv x neigh base k xs
           (fold (\<lambda>p. neigh_effect (base + fst p) neigh (shifted E xs step (snd p))
                     (f (shifted E xs step (snd p))) (snd p)) d w)"
proof (rule fold_replace[where I = "pool_inv x neigh base k xs"])
  show "pool_inv x neigh base k xs w" by (rule inv)
next
  fix p v
  assume p: "p \<in> set d" and v: "pool_inv x neigh base k xs v"
  obtain c i where pc: "p = (c, i)" by (cases p)
  have ci: "c < k" "i < length xs" using d p pc by auto
  have "neigh_job E f x neigh step base (c, i) v =
        neigh_effect (base + c) neigh (shifted E (slices v x) step i)
          (f (shifted E (slices v x) step i)) i v"
    by (rule neigh_job_eff) (use v ne ci in \<open>auto simp add: pool_inv_def\<close>)
  moreover have "pool_inv x neigh base k xs
        (neigh_effect (base + c) neigh (shifted E xs step i) (f (shifted E xs step i)) i v)"
    using v ne ci by (auto simp add: pool_inv_def neigh_effect_def)
  ultimately show "neigh_job E f x neigh step base p v =
        neigh_effect (base + fst p) neigh (shifted E xs step (snd p))
          (f (shifted E xs step (snd p))) (snd p) v \<and>
        pool_inv x neigh base k xs
          (neigh_effect (base + fst p) neigh (shifted E xs step (snd p))
             (f (shifted E xs step (snd p))) (snd p) v)"
    using v pc by (simp add: pool_inv_def)
qed

lemma conc_phaseB:
  assumes inv: "hess_inv dst x neigh base k xs tbl w"
    and ne: "x < neigh" "neigh < base"
    and tbl: "tbl = map (\<lambda>i. f (shifted E xs step i)) [0..<length xs]"
    and d: "\<forall>p\<in>set d. fst p < k \<and> job_i (snd p) \<le> job_j (snd p) \<and> job_j (snd p) < length xs"
  shows "fold (hess_job E dst f x neigh step origin base) d w =
         fold (\<lambda>p. job_effect dst (base + fst p) (stencil_point E xs step)
                     (concurrent_entry E f xs step origin) (snd p)) d w"
proof -
  let ?eff = "\<lambda>p. job_effect dst (base + fst p) (stencil_point E xs step)
                     (concurrent_entry E f xs step origin) (snd p)"
  have "hess_job E dst f x neigh step origin base p v = ?eff p v \<and>
        hess_inv dst x neigh base k xs tbl (?eff p v)"
    if p: "p \<in> set d" and v: "hess_inv dst x neigh base k xs tbl v" for p v
  proof -
    obtain c i j where pc: "p = (c, hessJob i j)" by (cases p, cases "snd p") auto
    have ci: "c < k" "i \<le> j" "j < length xs" using d p pc by auto
    have len: "length (slices v neigh) = length xs" using v tbl by (simp add: hess_inv_def)
    have e: "hess_job E dst f x neigh step origin base (c, hessJob i j) v =
          entry_effect dst (base + c) (stencil_point E xs step i j)
            (concurrent_entry E f xs step origin i j) i j v"
    proof (cases "i = j")
      case True
      then show ?thesis
        using v ne ci tbl len hess_job_diag_eff[of v base c x neigh i dst E f step origin]
        by (simp add: hess_inv_def stencil_point_def concurrent_entry_def)
    next
      case False
      then show ?thesis
        using v ne ci tbl len hess_job_off_eff[of v base c x neigh i j dst E f step origin]
        by (simp add: hess_inv_def stencil_point_def concurrent_entry_def)
    qed
    have "hess_inv dst x neigh base k xs tbl
          (entry_effect dst (base + c) (stencil_point E xs step i j)
            (concurrent_entry E f xs step origin i j) i j v)"
      using v ne ci by (auto simp add: hess_inv_def entry_effect_def set_cell_def)
    with e show ?thesis using pc by (simp add: job_effect_def)
  qed
  then show ?thesis
    using fold_replace[of "hess_inv dst x neigh base k xs tbl" w d
        "hess_job E dst f x neigh step origin base" ?eff] inv
    by blast
qed

lemma hessianConcurrent_facts:
  assumes w: "fault w = None" "slices w x = xs" "sym_n (mats w dst) = length xs"
    and a: "x < nslices w"
    and fa: "fair (neigh_delivery S) (if nWorkers > length xs then length xs else nWorkers) [0..<length xs]"
    and fb: "fair (hess_delivery S) nWorkers (hessianProducer (length xs))"
  shows "fault (hessianConcurrent E S dst f x step origin nWorkers w) = None"
    and "nmats (hessianConcurrent E S dst f x step origin nWorkers w) = nmats w"
    and "\<forall>a<nslices w. slices (hessianConcurrent E S dst f x step origin nWorkers w) a = slices w a"
    and "evals (hessianConcurrent E S dst f x step origin nWorkers w) =
         evals w @
         map (\<lambda>p. shifted E xs step (snd p))
           (neigh_delivery S (if nWorkers > length xs then length xs else nWorkers) [0..<length xs]) @
         map (\<lambda>p. stencil_point E xs step (job_i (snd p)) (job_j (snd p)))
           (hess_delivery S nWorkers (hessianProducer (length xs)))"
    and "sets (hessianConcurrent E S dst f x step origin nWorkers w) =
         sets w @ map (\<lambda>p. (dst, job_i (snd p), job_j (snd p),
                             concurrent_entry E f xs step origin (job_i (snd p)) (job_j (snd p))))
                    (hess_delivery S nWorkers (hessianProducer (length xs)))"
    and "mats (hessianConcurrent E S dst f x step origin nWorkers w) =
         (mats w)(dst := filled (length xs) (concurrent_entry E f xs step origin) (mats w dst))"
proof -
  define n where "n = length xs"
  define neigh where "neigh = nslices w"
  define w1 where "w1 = w\<lparr>slices := (slices w)(neigh := replicate n (fzero E)), nslices := Suc neigh\<rparr>"
  define kA where "kA = (if nWorkers > n then n else nWorkers)"
  define w2 where "w2 = make_workers E kA n w1"
  define dA where "dA = neigh_delivery S kA [0..<n]"
  define effA where "effA = (\<lambda>p::nat \<times> nat. neigh_effect (Suc neigh + fst p) neigh (shifted E xs step (snd p))
                     (f (shifted E xs step (snd p))) (snd p) :: 'a world \<Rightarrow> 'a world)"
  define w3 where "w3 = fold effA dA w2"
  define baseB where "baseB = Suc neigh + kA"
  define w4 where "w4 = make_workers E nWorkers n w3"
  define dB where "dB = hess_delivery S nWorkers (hessianProducer n)"
  define effB where "effB = (\<lambda>p::nat \<times> hessJob. job_effect dst (baseB + fst p) (stencil_point E xs step)
                     (concurrent_entry E f xs step origin) (snd p))"
  define tbl where "tbl = map (\<lambda>i. f (shifted E xs step i)) [0..<n]"
  have m: "make_slice E (length (slices w x)) w = (neigh, w1)"
    using w by (simp add: make_slice_eq neigh_def w1_def n_def)
  have f1: "fault w1 = None" and n1: "nslices w1 = Suc neigh" using w by (simp_all add: w1_def)
  have f2: "fault w2 = None" and n2: "nslices w2 = Suc neigh + kA"
    using f1 n1 by (simp_all add: w2_def make_workers_fields make_workers_nslices)
  have s2: "slices w2 a = slices w1 a" if "a \<le> neigh" for a
    unfolding w2_def by (rule make_workers_old) (use that n1 in simp)
  have c2: "slices w2 (Suc (neigh + c)) = replicate n (fzero E)" if "c < kA" for c
    using make_workers_new[OF f1 that, of E n] n1 by (simp add: w2_def)
  have xn: "x < neigh" using a by (simp add: neigh_def)
  have inv2: "pool_inv x neigh (Suc neigh) kA xs w2"
    using f2 xn w by (simp add: pool_inv_def s2 c2 w1_def n_def)
  have ln2: "length (slices w2 neigh) = n" by (simp add: s2 w1_def)
  have fairA: "fair (neigh_delivery S) kA [0..<n]" unfolding kA_def n_def by (rule fa)
  have dA_set: "snd ` set dA = {0..<n}" using fair_set[OF fairA] by (simp add: dA_def)
  have dA_ok: "\<forall>p\<in>set dA. fst p < kA \<and> snd p < length xs"
  proof
    fix p assume p: "p \<in> set dA"
    then have "snd p \<in> {0..<n}" using dA_set by blast
    then show "fst p < kA \<and> snd p < length xs"
      using fair_worker[OF fairA] p by (simp add: dA_def n_def)
  qed
  have A: "fold (neigh_job E f x neigh step (Suc neigh)) dA w2 = w3 \<and>
           pool_inv x neigh (Suc neigh) kA xs w3"
    unfolding w3_def effA_def by (rule conc_phaseA[OF inv2 xn _ dA_ok]) simp
  have t3: "slices w3 neigh = tbl"
    unfolding w3_def effA_def tbl_def
    using ln2 dA_set
      fold_update_table[of "slices w2 neigh" n snd dA "\<lambda>i. f (shifted E xs step i)"]
    by (simp add: fold_neigh_effect_table)
  have f3: "fault w3 = None" and n3: "nslices w3 = baseB" and m3: "mats w3 = mats w"
    using f2 n2 by (simp_all add: w3_def effA_def fold_neigh_effect_fields baseB_def w2_def
        make_workers_fields w1_def)
  have x3: "slices w3 x = xs" using A by (simp add: pool_inv_def)
  have f4: "fault w4 = None" and n4: "nslices w4 = baseB + nWorkers"
    using f3 n3 by (simp_all add: w4_def make_workers_fields make_workers_nslices)
  have s4: "slices w4 a = slices w3 a" if "a < baseB" for a
    unfolding w4_def by (rule make_workers_old) (use that n3 in simp)
  have c4: "slices w4 (baseB + c) = replicate n (fzero E)" if "c < nWorkers" for c
    using make_workers_new[OF f3 that, of E n] n3 by (simp add: w4_def)
  have nb: "neigh < baseB" by (simp add: baseB_def)
  have m4: "mats w4 = mats w" using m3 by (simp add: w4_def make_workers_fields)
  have xb: "x < baseB" using xn nb by simp
  have inv4: "hess_inv dst x neigh baseB nWorkers xs tbl w4"
    using f4 x3 t3 w m4 s4[OF xb] s4[OF nb]
    by (simp add: hess_inv_def c4 n_def)
  have fairB: "fair (hess_delivery S) nWorkers (hessianProducer n)" unfolding n_def by (rule fb)
  have dB_set: "snd ` set dB = set (hessianProducer n)" using fair_set[OF fairB] by (simp add: dB_def)
  have dB_ok: "\<forall>p\<in>set dB. fst p < nWorkers \<and> job_i (snd p) \<le> job_j (snd p) \<and> job_j (snd p) < length xs"
  proof
    fix p assume p: "p \<in> set dB"
    then have "snd p \<in> set (hessianProducer n)" using dB_set by blast
    then show "fst p < nWorkers \<and> job_i (snd p) \<le> job_j (snd p) \<and> job_j (snd p) < length xs"
      using fair_worker[OF fairB] p hessianProducer_bounds[of "snd p" n] by (simp add: dB_def n_def)
  qed
  have B: "fold (hess_job E dst f x neigh step origin baseB) dB w4 = fold effB dB w4"
    unfolding effB_def
    by (rule conc_phaseB[OF inv4 xn nb _ dB_ok]) (simp add: tbl_def n_def)
  have m': "make_slice E n w = (neigh, w1)" using m w by (simp add: n_def)
  have A1: "fold (neigh_job E f x neigh step (Suc neigh)) dA w2 = w3" using A by simp
  have eq: "hessianConcurrent E S dst f x step origin nWorkers w = fold effB dB w4"
    unfolding hessianConcurrent_def Let_def w(2) n_def[symmetric] m' prod.case kA_def[symmetric]
      n1 w2_def[symmetric] ln2 dA_def[symmetric] A1 n3 w4_def[symmetric] dB_def[symmetric] B ..
  have fl: "fold (\<lambda>p. set_cell (job_i (snd p)) (job_j (snd p))
                (concurrent_entry E f xs step origin (job_i (snd p)) (job_j (snd p)))) dB m' =
            filled n (concurrent_entry E f xs step origin) m'" for m'
    by (rule fold_set_cell_filled) (simp add: dB_set hessianProducer_set)
  show "fault (hessianConcurrent E S dst f x step origin nWorkers w) = None"
    unfolding eq effB_def job_effect_def[abs_def] using f4 by (simp add: fold_entry_effect_fields)
  show "nmats (hessianConcurrent E S dst f x step origin nWorkers w) = nmats w"
    unfolding eq effB_def job_effect_def[abs_def]
    by (simp add: fold_entry_effect_fields w4_def w3_def effA_def w2_def w1_def
        make_workers_fields fold_neigh_effect_fields)
  show "\<forall>a<nslices w. slices (hessianConcurrent E S dst f x step origin nWorkers w) a = slices w a"
  proof (intro allI impI)
    fix a assume "a < nslices w"
    then have an: "a < neigh" by (simp add: neigh_def)
    have "slices (fold effB dB w4) a = slices w4 a"
      unfolding effB_def job_effect_def[abs_def]
      by (rule fold_entry_effect_other) (use an nb in auto)
    also have "\<dots> = slices w3 a" using an nb by (simp add: s4)
    also have "\<dots> = slices w2 a"
      unfolding w3_def effA_def by (rule fold_neigh_effect_other) (use an in auto)
    also have "\<dots> = slices w a" using an by (simp add: s2 w1_def)
    finally show "slices (hessianConcurrent E S dst f x step origin nWorkers w) a = slices w a"
      by (simp add: eq)
  qed
  show "evals (hessianConcurrent E S dst f x step origin nWorkers w) =
         evals w @
         map (\<lambda>p. shifted E xs step (snd p))
           (neigh_delivery S (if nWorkers > length xs then length xs else nWorkers) [0..<length xs]) @
         map (\<lambda>p. stencil_point E xs step (job_i (snd p)) (job_j (snd p)))
           (hess_delivery S nWorkers (hessianProducer (length xs)))"
    unfolding eq effB_def job_effect_def[abs_def]
    by (simp add: fold_entry_effect_fields w4_def w3_def effA_def w2_def w1_def
        make_workers_fields fold_neigh_effect_fields dA_def dB_def kA_def n_def)
  show "sets (hessianConcurrent E S dst f x step origin nWorkers w) =
         sets w @ map (\<lambda>p. (dst, job_i (snd p), job_j (snd p),
                             concurrent_entry E f xs step origin (job_i (snd p)) (job_j (snd p))))
                    (hess_delivery S nWorkers (hessianProducer (length xs)))"
    unfolding eq effB_def job_effect_def[abs_def]
    by (simp add: fold_entry_effect_fields w4_def w3_def effA_def w2_def w1_def
        make_workers_fields fold_neigh_effect_fields dB_def n_def)
  show "mats (hessianConcurrent E S dst f x step origin nWorkers w) =
         (mats w)(dst := filled (length xs) (concurrent_entry E f xs step origin) (mats w dst))"
    unfolding eq effB_def job_effect_def[abs_def]
    using m3 by (simp add: fold_entry_effect_mats fl w4_def make_workers_fields n_def)
qed

subsection \<open>Hessian\<close>

text \<open>
  What a call leaves behind, on the serial path, on the pool path under a fair schedule,
  and on either.
\<close>

lemma Hessian_mismatch:
  "sym_n (mats w d) \<noteq> length (slices w x) \<Longrightarrow>
   Hessian E S (Some d) f x settings w = Panic Mismatched_matrix_size w"
  by (simp add: Hessian_def)

lemma Hessian_run:
  assumes w: "fault w = None" "x < nslices w" and fits: "fits dst x w"
  shows "Hessian E S dst f x settings w =
    finish (sink_of dst w)
      (if workers_of E (length (slices w x)) settings = 1
       then hessianSerial E (sink_of dst w) f x (nslices w) (step_of E settings)
              (origin_of E f (slices w x) settings) (prelude E dst x settings w)
       else hessianConcurrent E S (sink_of dst w) f x (step_of E settings)
              (origin_of E f (slices w x) settings)
              (workers_of E (length (slices w x)) settings) (prelude E dst x settings w))"
proof -
  define n where "n = length (slices w x)"
  define st where "st = settings_of E settings"
  define wa where "wa = w\<lparr>mats := (mats w)(sink_of dst w := sink_before E dst n w),
                          nmats := (case dst of None \<Rightarrow> Suc (nmats w) | Some d \<Rightarrow> nmats w)\<rparr>"
  define wb where "wb = wa\<lparr>slices := (slices wa)(nslices w := replicate n (fzero E)),
                           nslices := Suc (nslices w)\<rparr>"
  have xne: "nslices w \<noteq> x" using w by simp
  have e1: "(case dst of None \<Rightarrow> NewSymDense E n w | Some d \<Rightarrow> (d, w)) = (sink_of dst w, wa)"
  proof (cases dst)
    case None
    then show ?thesis using w by (simp add: NewSymDense_def sink_of_def sink_before_def wa_def)
  next
    case (Some d)
    have "w = w\<lparr>mats := (mats w)(d := mats w d), nmats := nmats w\<rparr>" by simp
    then show ?thesis using Some by (simp add: sink_of_def sink_before_def wa_def)
  qed
  have e2: "sym_n (mats wa (sink_of dst w)) = n"
    using fits by (cases dst) (simp_all add: wa_def sink_before_def fits_def n_def)
  have e3: "make_slice E n wa = (nslices w, wb)"
    using w by (simp add: make_slice_eq wa_def wb_def)
  have e4: "(case settings of None \<Rightarrow> zero_settings E | Some s \<Rightarrow> s) = st"
    by (simp add: st_def settings_of_def)
  have e5: "(if feq E (Step st) (fzero E) then Central2nd_Step E else Step st) = step_of E settings"
    by (simp add: step_of_def st_def)
  have e6: "(if Concurrent st
             then (if GOMAXPROCS E > n + n * (n - 1) div 2 then n + n * (n - 1) div 2 else GOMAXPROCS E)
             else 1) = workers_of E n settings"
    by (simp add: workers_of_def st_def min_def)
  have e7: "(if \<not> OriginKnown st
             then (f (slices (copy_sl (nslices w) x wb) (nslices w)),
                   call (nslices w) (copy_sl (nslices w) x wb))
             else (OriginValue st, wb)) =
            (origin_of E f (slices w x) settings, prelude E dst x settings w)"
  proof (cases "OriginKnown st")
    case True
    then show ?thesis
      by (simp add: origin_of_def prelude_def st_def[symmetric] wb_def wa_def n_def)
  next
    case False
    have fb: "fault wb = None" and lb: "length (slices wb (nslices w)) = length (slices wb x)"
      using w xne by (simp_all add: wb_def wa_def n_def)
    have c: "copy_sl (nslices w) x wb = wb\<lparr>slices := (slices wb)(nslices w := slices wb x)\<rparr>"
      by (rule copy_sl_eq[OF fb lb])
    show ?thesis
      unfolding c
      using False w xne
      by (simp add: call_eq origin_of_def prelude_def st_def[symmetric] wb_def wa_def n_def)
  qed
  show ?thesis
    unfolding Hessian_def Let_def n_def[symmetric] e1 prod.case e2 e3 e4 e5 e6 e7 finish_def
    by simp
qed

lemma prelude_facts:
  assumes w: "fault w = None" "x < nslices w" and fits: "fits dst x w"
  shows "fault (prelude E dst x settings w) = None"
    and "slices (prelude E dst x settings w) x = slices w x"
    and "length (slices (prelude E dst x settings w) (nslices w)) = length (slices w x)"
    and "sym_n (mats (prelude E dst x settings w) (sink_of dst w)) = length (slices w x)"
    and "nslices (prelude E dst x settings w) = Suc (nslices w)"
    and "nmats (prelude E dst x settings w) = (case dst of None \<Rightarrow> Suc (nmats w) | Some d \<Rightarrow> nmats w)"
    and "sets (prelude E dst x settings w) = sets w"
    and "evals (prelude E dst x settings w) =
           evals w @ (if OriginKnown (settings_of E settings) then [] else [slices w x])"
    and "mats (prelude E dst x settings w) (sink_of dst w) = sink_before E dst (length (slices w x)) w"
    and "\<forall>a<nslices w. slices (prelude E dst x settings w) a = slices w a"
    and "(mats (prelude E dst x settings w))(sink_of dst w := m) = (mats w)(sink_of dst w := m)"
  using w fits
  by (cases dst; simp add: prelude_def sink_before_def fits_def)+

lemma Hessian_serial_facts:
  assumes w: "fault w = None" "x < nslices w" and fits: "fits dst x w"
    and serial: "workers_of E (length (slices w x)) settings = 1"
    and W: "W = final (Hessian E S dst f x settings w)"
  shows "Hessian E S dst f x settings w = Return (sink_of dst w) W"
    and "nmats W = (case dst of None \<Rightarrow> Suc (nmats w) | Some d \<Rightarrow> nmats w)"
    and "\<forall>a<nslices w. slices W a = slices w a"
    and "evals W = evals w @ (if OriginKnown (settings_of E settings) then [] else [slices w x]) @
           map (shifted E (slices w x) (step_of E settings)) [0..<length (slices w x)] @
           map (\<lambda>job. stencil_point E (slices w x) (step_of E settings) (job_i job) (job_j job))
             (hessianProducer (length (slices w x)))"
    and "sets W = sets w @
           map (\<lambda>job. (sink_of dst w, job_i job, job_j job,
                        serial_entry E f (slices w x) (step_of E settings)
                          (origin_of E f (slices w x) settings) (job_i job) (job_j job)))
             (hessianProducer (length (slices w x)))"
    and "mats W = (mats w)(sink_of dst w :=
           filled (length (slices w x))
             (serial_entry E f (slices w x) (step_of E settings) (origin_of E f (slices w x) settings))
             (sink_before E dst (length (slices w x)) w))"
proof -
  let ?P = "prelude E dst x settings w"
  let ?H = "hessianSerial E (sink_of dst w) f x (nslices w) (step_of E settings)
              (origin_of E f (slices w x) settings) ?P"
  note p = prelude_facts[OF w fits, of E settings]
  have xne: "nslices w \<noteq> x" using w by simp
  note h = hessianSerial_facts[of ?P x "slices w x" "nslices w" "sink_of dst w" E f "step_of E settings"
      "origin_of E f (slices w x) settings", OF p(1) p(2) p(3) p(4) xne]
  have lt: "x < nslices ?P" "nslices w < nslices ?P" using w p(5) by simp_all
  have run: "Hessian E S dst f x settings w = finish (sink_of dst w) ?H"
    using Hessian_run[OF w fits, of E S f settings] serial by simp
  have ok: "fault ?H = None" by (rule h(1)[OF lt])
  show r: "Hessian E S dst f x settings w = Return (sink_of dst w) W"
    using run ok W by (simp add: finish_def)
  have WH: "W = ?H" using run ok W by (simp add: finish_def)
  show "nmats W = (case dst of None \<Rightarrow> Suc (nmats w) | Some d \<Rightarrow> nmats w)"
    unfolding WH using h(2)[OF lt] p(6) by simp
  show "\<forall>a<nslices w. slices W a = slices w a"
    unfolding WH using h(3)[OF lt] p(5) p(10) by simp
  show "evals W = evals w @ (if OriginKnown (settings_of E settings) then [] else [slices w x]) @
           map (shifted E (slices w x) (step_of E settings)) [0..<length (slices w x)] @
           map (\<lambda>job. stencil_point E (slices w x) (step_of E settings) (job_i job) (job_j job))
             (hessianProducer (length (slices w x)))"
    unfolding WH h(4)[OF lt] p(8) by simp
  show "sets W = sets w @
           map (\<lambda>job. (sink_of dst w, job_i job, job_j job,
                        serial_entry E f (slices w x) (step_of E settings)
                          (origin_of E f (slices w x) settings) (job_i job) (job_j job)))
             (hessianProducer (length (slices w x)))"
    unfolding WH h(5)[OF lt] p(7) by simp
  show "mats W = (mats w)(sink_of dst w :=
           filled (length (slices w x))
             (serial_entry E f (slices w x) (step_of E settings) (origin_of E f (slices w x) settings))
             (sink_before E dst (length (slices w x)) w))"
    unfolding WH h(6)[OF lt] p(9) p(11) by simp
qed

lemma Hessian_concurrent_facts:
  assumes w: "fault w = None" "x < nslices w" and fits: "fits dst x w"
    and conc: "workers_of E (length (slices w x)) settings \<noteq> 1"
    and fa: "fair (neigh_delivery S)
               (if workers_of E (length (slices w x)) settings > length (slices w x)
                then length (slices w x) else workers_of E (length (slices w x)) settings)
               [0..<length (slices w x)]"
    and fb: "fair (hess_delivery S) (workers_of E (length (slices w x)) settings)
               (hessianProducer (length (slices w x)))"
    and W: "W = final (Hessian E S dst f x settings w)"
  shows "Hessian E S dst f x settings w = Return (sink_of dst w) W"
    and "nmats W = (case dst of None \<Rightarrow> Suc (nmats w) | Some d \<Rightarrow> nmats w)"
    and "\<forall>a<nslices w. slices W a = slices w a"
    and "evals W = evals w @ (if OriginKnown (settings_of E settings) then [] else [slices w x]) @
           map (\<lambda>p. shifted E (slices w x) (step_of E settings) (snd p))
             (neigh_delivery S
               (if workers_of E (length (slices w x)) settings > length (slices w x)
                then length (slices w x) else workers_of E (length (slices w x)) settings)
               [0..<length (slices w x)]) @
           map (\<lambda>p. stencil_point E (slices w x) (step_of E settings) (job_i (snd p)) (job_j (snd p)))
             (hess_delivery S (workers_of E (length (slices w x)) settings)
               (hessianProducer (length (slices w x))))"
    and "sets W = sets w @
           map (\<lambda>p. (sink_of dst w, job_i (snd p), job_j (snd p),
                      concurrent_entry E f (slices w x) (step_of E settings)
                        (origin_of E f (slices w x) settings) (job_i (snd p)) (job_j (snd p))))
             (hess_delivery S (workers_of E (length (slices w x)) settings)
               (hessianProducer (length (slices w x))))"
    and "mats W = (mats w)(sink_of dst w :=
           filled (length (slices w x))
             (concurrent_entry E f (slices w x) (step_of E settings) (origin_of E f (slices w x) settings))
             (sink_before E dst (length (slices w x)) w))"
proof -
  let ?P = "prelude E dst x settings w"
  let ?k = "workers_of E (length (slices w x)) settings"
  let ?H = "hessianConcurrent E S (sink_of dst w) f x (step_of E settings)
              (origin_of E f (slices w x) settings) ?k ?P"
  note p = prelude_facts[OF w fits, of E settings]
  have lt: "x < nslices ?P" using w p(5) by simp
  note h = hessianConcurrent_facts[of ?P x "slices w x" "sink_of dst w" S ?k E f "step_of E settings"
      "origin_of E f (slices w x) settings", OF p(1) p(2) p(4) lt fa fb]
  have run: "Hessian E S dst f x settings w = finish (sink_of dst w) ?H"
    using Hessian_run[OF w fits, of E S f settings] conc by simp
  have ok: "fault ?H = None" by (rule h(1))
  show r: "Hessian E S dst f x settings w = Return (sink_of dst w) W"
    using run ok W by (simp add: finish_def)
  have WH: "W = ?H" using run ok W by (simp add: finish_def)
  show "nmats W = (case dst of None \<Rightarrow> Suc (nmats w) | Some d \<Rightarrow> nmats w)"
    unfolding WH using h(2) p(6) by simp
  show "\<forall>a<nslices w. slices W a = slices w a"
    unfolding WH using h(3) p(5) p(10) by simp
  show "evals W = evals w @ (if OriginKnown (settings_of E settings) then [] else [slices w x]) @
           map (\<lambda>p. shifted E (slices w x) (step_of E settings) (snd p))
             (neigh_delivery S
               (if workers_of E (length (slices w x)) settings > length (slices w x)
                then length (slices w x) else workers_of E (length (slices w x)) settings)
               [0..<length (slices w x)]) @
           map (\<lambda>p. stencil_point E (slices w x) (step_of E settings) (job_i (snd p)) (job_j (snd p)))
             (hess_delivery S (workers_of E (length (slices w x)) settings)
               (hessianProducer (length (slices w x))))"
    unfolding WH h(4) p(8) by simp
  show "sets W = sets w @
           map (\<lambda>p. (sink_of dst w, job_i (snd p), job_j (snd p),
                      concurrent_entry E f (slices w x) (step_of E settings)
                        (origin_of E f (slices w x) settings) (job_i (snd p)) (job_j (snd p))))
             (hess_delivery S (workers_of E (length (slices w x)) settings)
               (hessianProducer (length (slices w x))))"
    unfolding WH h(5) p(7) by simp
  show "mats W = (mats w)(sink_of dst w :=
           filled (length (slices w x))
             (concurrent_entry E f (slices w x) (step_of E settings) (origin_of E f (slices w x) settings))
             (sink_before E dst (length (slices w x)) w))"
    unfolding WH h(6) p(9) p(11) by simp
qed

lemma Hessian_facts:
  assumes w: "fault w = None" "x < nslices w" and fits: "fits dst x w"
    and adm: "admissible E S (length (slices w x)) settings"
    and W: "W = final (Hessian E S dst f x settings w)"
  shows "Hessian E S dst f x settings w = Return (sink_of dst w) W"
    and "nmats W = (case dst of None \<Rightarrow> Suc (nmats w) | Some d \<Rightarrow> nmats w)"
    and "\<forall>a<nslices w. slices W a = slices w a"
    and "\<exists>pts. evals W = evals w @ pts \<and>
           length pts = (if OriginKnown (settings_of E settings) then 0 else 1) +
             (length (slices w x) +
              (length (slices w x) + length (slices w x) * (length (slices w x) - 1) div 2))"
    and "\<exists>js. mset js = mset (hessianProducer (length (slices w x))) \<and>
           sets W = sets w @
             map (\<lambda>job. (sink_of dst w, job_i job, job_j job,
                          entry_of E f (slices w x) settings (job_i job) (job_j job))) js"
    and "mats W = (mats w)(sink_of dst w :=
           filled (length (slices w x)) (entry_of E f (slices w x) settings)
             (sink_before E dst (length (slices w x)) w))"
proof -
  let ?n = "length (slices w x)"
  let ?k = "workers_of E ?n settings"
  have "Hessian E S dst f x settings w = Return (sink_of dst w) W \<and>
    nmats W = (case dst of None \<Rightarrow> Suc (nmats w) | Some d \<Rightarrow> nmats w) \<and>
    (\<forall>a<nslices w. slices W a = slices w a) \<and>
    (\<exists>pts. evals W = evals w @ pts \<and>
           length pts = (if OriginKnown (settings_of E settings) then 0 else 1) +
             (?n + (?n + ?n * (?n - 1) div 2))) \<and>
    (\<exists>js. mset js = mset (hessianProducer ?n) \<and>
           sets W = sets w @
             map (\<lambda>job. (sink_of dst w, job_i job, job_j job,
                          entry_of E f (slices w x) settings (job_i job) (job_j job))) js) \<and>
    mats W = (mats w)(sink_of dst w :=
           filled ?n (entry_of E f (slices w x) settings) (sink_before E dst ?n w))"
  proof (cases "?k = 1")
    case True
    note s = Hessian_serial_facts[OF w fits True W]
    have "\<exists>js. mset js = mset (hessianProducer ?n) \<and>
           sets W = sets w @
             map (\<lambda>job. (sink_of dst w, job_i job, job_j job,
                          entry_of E f (slices w x) settings (job_i job) (job_j job))) js"
      using s(5) True by (intro exI[of _ "hessianProducer ?n"]) (simp add: entry_of_def)
    moreover have "\<exists>pts. evals W = evals w @ pts \<and>
           length pts = (if OriginKnown (settings_of E settings) then 0 else 1) +
             (?n + (?n + ?n * (?n - 1) div 2))"
      unfolding s(4) by (rule exI, rule conjI, rule refl) (simp add: hessianProducer_length)
    ultimately show ?thesis using s(1,2,3,6) True by (simp add: entry_of_def)
  next
    case False
    then have fa: "fair (neigh_delivery S) (if ?k > ?n then ?n else ?k) [0..<?n]"
      and fb: "fair (hess_delivery S) ?k (hessianProducer ?n)"
      using adm by (simp_all add: admissible_def)
    note c = Hessian_concurrent_facts[OF w fits False fa fb W]
    let ?dB = "hess_delivery S ?k (hessianProducer ?n)"
    have "mset (map snd ?dB) = mset (hessianProducer ?n)" using fb by (simp add: fair_def)
    moreover have "sets W = sets w @
             map (\<lambda>job. (sink_of dst w, job_i job, job_j job,
                          entry_of E f (slices w x) settings (job_i job) (job_j job))) (map snd ?dB)"
      unfolding c(5) using False by (simp add: entry_of_def comp_def)
    ultimately have "\<exists>js. mset js = mset (hessianProducer ?n) \<and>
           sets W = sets w @
             map (\<lambda>job. (sink_of dst w, job_i job, job_j job,
                          entry_of E f (slices w x) settings (job_i job) (job_j job))) js"
      by blast
    moreover have "\<exists>pts. evals W = evals w @ pts \<and>
           length pts = (if OriginKnown (settings_of E settings) then 0 else 1) +
             (?n + (?n + ?n * (?n - 1) div 2))"
    proof (intro exI conjI)
      show "evals W = evals w @ ((if OriginKnown (settings_of E settings) then [] else [slices w x]) @
           map (\<lambda>p. shifted E (slices w x) (step_of E settings) (snd p))
             (neigh_delivery S (if ?k > ?n then ?n else ?k) [0..<?n]) @
           map (\<lambda>p. stencil_point E (slices w x) (step_of E settings) (job_i (snd p)) (job_j (snd p)))
             ?dB)"
        by (rule c(4))
      show "length ((if OriginKnown (settings_of E settings) then [] else [slices w x]) @
           map (\<lambda>p. shifted E (slices w x) (step_of E settings) (snd p))
             (neigh_delivery S (if ?k > ?n then ?n else ?k) [0..<?n]) @
           map (\<lambda>p. stencil_point E (slices w x) (step_of E settings) (job_i (snd p)) (job_j (snd p)))
             ?dB) = (if OriginKnown (settings_of E settings) then 0 else 1) +
             (?n + (?n + ?n * (?n - 1) div 2))"
        using fair_length[OF fa] fair_length[OF fb] by (simp add: hessianProducer_length)
    qed
    ultimately show ?thesis using c(1,2,3,6) False by (simp add: entry_of_def)
  qed
  then show "Hessian E S dst f x settings w = Return (sink_of dst w) W"
    and "nmats W = (case dst of None \<Rightarrow> Suc (nmats w) | Some d \<Rightarrow> nmats w)"
    and "\<forall>a<nslices w. slices W a = slices w a"
    and "\<exists>pts. evals W = evals w @ pts \<and>
           length pts = (if OriginKnown (settings_of E settings) then 0 else 1) +
             (length (slices w x) +
              (length (slices w x) + length (slices w x) * (length (slices w x) - 1) div 2))"
    and "\<exists>js. mset js = mset (hessianProducer (length (slices w x))) \<and>
           sets W = sets w @
             map (\<lambda>job. (sink_of dst w, job_i job, job_j job,
                          entry_of E f (slices w x) settings (job_i job) (job_j job))) js"
    and "mats W = (mats w)(sink_of dst w :=
           filled (length (slices w x)) (entry_of E f (slices w x) settings)
             (sink_before E dst (length (slices w x)) w))"
    by blast+
qed


lemma Hessian_cell:
  assumes "fault w = None" "x < nslices w" "fits dst x w"
    and "admissible E S (length (slices w x)) settings"
    and "i \<le> j" "j < length (slices w x)"
  shows "At (mats (final (Hessian E S dst f x settings w)) (sink_of dst w)) i j =
         entry_of E f (slices w x) settings i j"
    and "At (mats (final (Hessian E S dst f x settings w)) (sink_of dst w)) j i =
         entry_of E f (slices w x) settings i j"
  unfolding Hessian_facts(6)[OF assms(1-4) refl]
  using assms(5,6) by (simp_all add: At_def filled_def min_def max_def)


lemma one_worker_same_outcome:
  assumes w: "fault w = None" "x < nslices w" "fits dst x w"
    and one: "workers_of E (length (slices w x)) (Some (st\<lparr>Concurrent := True\<rparr>)) = 1"
  shows "Hessian E S dst f x (Some (st\<lparr>Concurrent := True\<rparr>)) w =
         Hessian E S dst f x (Some (st\<lparr>Concurrent := False\<rparr>)) w"
proof -
  have o: "workers_of E (length (slices w x)) (Some (st\<lparr>Concurrent := False\<rparr>)) = 1"
    by (simp add: workers_of_def settings_of_def)
  have s: "step_of E (Some (st\<lparr>Concurrent := True\<rparr>)) = step_of E (Some (st\<lparr>Concurrent := False\<rparr>))"
    "origin_of E f (slices w x) (Some (st\<lparr>Concurrent := True\<rparr>)) =
     origin_of E f (slices w x) (Some (st\<lparr>Concurrent := False\<rparr>))"
    "prelude E dst x (Some (st\<lparr>Concurrent := True\<rparr>)) w =
     prelude E dst x (Some (st\<lparr>Concurrent := False\<rparr>)) w"
    by (simp_all add: step_of_def origin_of_def prelude_def settings_of_def)
  show ?thesis
    unfolding Hessian_run[OF w] one o s by simp
qed

lemma workers_of_origin:
  "workers_of E n (Some (st\<lparr>OriginKnown := k, OriginValue := v\<rparr>)) = workers_of E n (Some st)"
  "workers_of E n (Some (st\<lparr>OriginKnown := k\<rparr>)) = workers_of E n (Some st)"
  by (simp_all add: workers_of_def settings_of_def)

lemma admissible_origin:
  "admissible E S n (Some (st\<lparr>OriginKnown := k, OriginValue := v\<rparr>)) = admissible E S n (Some st)"
  "admissible E S n (Some (st\<lparr>OriginKnown := k\<rparr>)) = admissible E S n (Some st)"
  by (simp_all add: admissible_def workers_of_origin)

lemma entry_of_origin:
  "entry_of E f xs (Some (st\<lparr>OriginKnown := True, OriginValue := f xs\<rparr>)) =
   entry_of E f xs (Some (st\<lparr>OriginKnown := False\<rparr>))"
  by (simp add: entry_of_def workers_of_origin step_of_def origin_of_def settings_of_def)

lemma exact_entries:
  fixes E :: "'a::field env"
  assumes "fadd E = (+)" "fsub E = (-)" "fdiv E = (/)"
  shows "concurrent_entry E f xs step origin i j = serial_entry E f xs step origin i j"
  using assms
  by (simp add: concurrent_entry_def serial_entry_def diff_divide_distrib[symmetric] algebra_simps)

subsection \<open>The concrete inputs\<close>

lemma float64_literals: "rne (1 / 10) = tenth" "rne (3 / 10) = three_tenths"
  unfolding tenth_def three_tenths_def by code_simp+

lemma world_at_ready:
  "fault (world_at xs) = None" "0 < nslices (world_at xs)" "fits None 0 (world_at xs)"
  "slices (world_at xs) 0 = xs"
  by (simp_all add: world_at_def fits_def)

lemma world_at_sink: "sink_of None (world_at xs) = 0"
  by (simp add: sink_of_def world_at_def)

lemma workers_pool: "workers_of (binary64 c 2) 2 (Some pool_settings) = 2"
  by (simp add: workers_of_def settings_of_def pool_settings_def binary64_def)

lemma fairA: "fair round_robin 2 [0..<2]"
  by code_simp

lemma fairB: "fair round_robin 2 (hessianProducer 2)"
  by code_simp

lemma reversing_admissible:
  "admissible (binary64 c 2) reversing (length (slices (world_at [a, b]) 0)) (Some pool_settings)"
proof -
  have "length (slices (world_at [a, b]) 0) = 2" by (simp add: world_at_ready)
  then show ?thesis
    using fairA fairB by (simp add: admissible_def workers_pool reversing_def)
qed

lemma reversing_admissible_pool:
  assumes "Concurrent st" "GOMAXPROCS E = 2"
  shows "admissible E reversing (length (slices (world_at [a, b]) 0)) (Some st)"
proof -
  have "length (slices (world_at [a, b]) 0) = 2" by (simp add: world_at_ready)
  moreover have "workers_of E 2 (Some st) = 2"
    using assms by (simp add: workers_of_def settings_of_def)
  ultimately show ?thesis
    using fairA fairB by (simp add: admissible_def reversing_def)
qed

lemma unit_step_admissible:
  "admissible (binary64 tenth 2) reversing (length (slices (world_at [a, b]) 0))
     (Some (pool_settings\<lparr>Step := 1\<rparr>))"
  by (rule reversing_admissible_pool) (simp_all add: pool_settings_def binary64_def)

lemma pool_diag_value:
  "concurrent_entry (binary64 tenth 2) first_coord [1, 1] tenth 1 0 0 = 0"
  by code_simp

lemma serial_diag_value:
  "serial_entry (binary64 tenth 2) first_coord [1, 1] tenth 1 0 0 = 25 / 2251799813685248"
  by code_simp

lemma pool_off_value:
  "concurrent_entry (binary64 tenth 2) product [three_tenths, 3] 1 (product [three_tenths, 3]) 0 1 = 1"
  by code_simp

lemma serial_off_value:
  "serial_entry (binary64 tenth 2) product [three_tenths, 3] 1 (product [three_tenths, 3]) 0 1 =
     2251799813685247 / 2251799813685248"
  by code_simp

lemma pool_entry_diag:
  "entry_of (binary64 tenth 2) first_coord [1, 1] (Some pool_settings) 0 0 = 0"
proof -
  have "workers_of (binary64 tenth 2) (length [1, 1 :: rat]) (Some pool_settings) = 2"
    by (simp add: workers_of_def settings_of_def pool_settings_def binary64_def)
  moreover have "step_of (binary64 tenth 2) (Some pool_settings) = tenth"
    "origin_of (binary64 tenth 2) first_coord [1, 1] (Some pool_settings) = 1"
    by (simp_all add: step_of_def origin_of_def settings_of_def pool_settings_def binary64_def
        tenth_def first_coord_def)
  ultimately show ?thesis
    unfolding entry_of_def using pool_diag_value by simp
qed

lemma serial_entry_diag:
  "entry_of (binary64 tenth 2) first_coord [1, 1] (Some (pool_settings\<lparr>Concurrent := False\<rparr>)) 0 0 =
     25 / 2251799813685248"
proof -
  have "workers_of (binary64 tenth 2) (length [1, 1 :: rat]) (Some (pool_settings\<lparr>Concurrent := False\<rparr>)) = 1"
    by (simp add: workers_of_def settings_of_def)
  moreover have "step_of (binary64 tenth 2) (Some (pool_settings\<lparr>Concurrent := False\<rparr>)) = tenth"
    "origin_of (binary64 tenth 2) first_coord [1, 1] (Some (pool_settings\<lparr>Concurrent := False\<rparr>)) = 1"
    by (simp_all add: step_of_def origin_of_def settings_of_def pool_settings_def binary64_def
        tenth_def first_coord_def)
  ultimately show ?thesis
    unfolding entry_of_def using serial_diag_value by simp
qed

lemma pool_entry_off:
  "entry_of (binary64 tenth 2) product [three_tenths, 3] (Some (pool_settings\<lparr>Step := 1\<rparr>)) 0 1 = 1"
proof -
  have "workers_of (binary64 tenth 2) (length [three_tenths, 3]) (Some (pool_settings\<lparr>Step := 1\<rparr>)) = 2"
    by (simp add: workers_of_def settings_of_def pool_settings_def binary64_def)
  moreover have "step_of (binary64 tenth 2) (Some (pool_settings\<lparr>Step := 1\<rparr>)) = 1"
    "origin_of (binary64 tenth 2) product [three_tenths, 3] (Some (pool_settings\<lparr>Step := 1\<rparr>)) =
       product [three_tenths, 3]"
    by (simp_all add: step_of_def origin_of_def settings_of_def pool_settings_def binary64_def)
  ultimately show ?thesis
    unfolding entry_of_def using pool_off_value by simp
qed

section \<open>The statements of the specification\<close>

subsection \<open>Serial and concurrent execution (C1)\<close>

text \<open>
  C1, as the code has it. The two paths evaluate different expressions for an entry: the
  serial path divides the two first differences by the step and subtracts, the workers of
  the pool add and subtract the four values in a row and divide twice. So the flag
  \<^verbatim>\<open>Concurrent\<close> leaves the outcome the same when the call resolves to one worker (the
  serial path runs), and leaves every entry the same when the arithmetic is exact; under
  the rounding of float64 an entry may differ between the paths.
\<close>

theorem paths_agree_with_one_worker_or_exact_arithmetic:
  fixes E :: "'a::field env"
  assumes "fault w = None" "x < nslices w" "fits dst x w"
    and "admissible E S (length (slices w x)) (Some (st\<lparr>Concurrent := True\<rparr>))"
  shows "(workers_of E (length (slices w x)) (Some (st\<lparr>Concurrent := True\<rparr>)) = 1 \<longrightarrow>
            Hessian E S dst f x (Some (st\<lparr>Concurrent := True\<rparr>)) w =
            Hessian E S dst f x (Some (st\<lparr>Concurrent := False\<rparr>)) w) \<and>
         (fadd E = (+) \<and> fsub E = (-) \<and> fdiv E = (/) \<longrightarrow>
            sink (Hessian E S dst f x (Some (st\<lparr>Concurrent := True\<rparr>)) w) =
            sink (Hessian E S dst f x (Some (st\<lparr>Concurrent := False\<rparr>)) w) \<and>
            mats (final (Hessian E S dst f x (Some (st\<lparr>Concurrent := True\<rparr>)) w)) =
            mats (final (Hessian E S dst f x (Some (st\<lparr>Concurrent := False\<rparr>)) w)))"
proof (intro conjI impI)
  assume "workers_of E (length (slices w x)) (Some (st\<lparr>Concurrent := True\<rparr>)) = 1"
  then show "Hessian E S dst f x (Some (st\<lparr>Concurrent := True\<rparr>)) w =
            Hessian E S dst f x (Some (st\<lparr>Concurrent := False\<rparr>)) w"
    by (rule one_worker_same_outcome[OF assms(1,2,3)])
next
  let ?T = "Some (st\<lparr>Concurrent := True\<rparr>)" and ?F = "Some (st\<lparr>Concurrent := False\<rparr>)"
  assume ex: "fadd E = (+) \<and> fsub E = (-) \<and> fdiv E = (/)"
  have aF: "admissible E S (length (slices w x)) ?F"
    by (simp add: admissible_def workers_of_def settings_of_def)
  note hT = Hessian_facts[OF assms(1,2,3,4) refl, of f]
  note hF = Hessian_facts[OF assms(1,2,3) aF refl, of f]
  have ee: "concurrent_entry E f (slices w x) s v = serial_entry E f (slices w x) s v" for s v
    using ex by (intro ext exact_entries) simp_all
  have so: "step_of E ?T = step_of E ?F"
    "origin_of E f (slices w x) ?T = origin_of E f (slices w x) ?F"
    by (simp_all add: step_of_def origin_of_def settings_of_def)
  have e: "entry_of E f (slices w x) ?T = entry_of E f (slices w x) ?F"
    unfolding entry_of_def so ee by simp
  show "sink (Hessian E S dst f x ?T w) = sink (Hessian E S dst f x ?F w)"
    using hT(1) hF(1) by (metis outcome.sel(1))
  show "mats (final (Hessian E S dst f x ?T w)) = mats (final (Hessian E S dst f x ?F w))"
    unfolding hT(6) hF(6) e ..
qed

theorem paths_agree_with_one_worker_or_exact_arithmetic_witness:
  "fault (world_at [1, 1]) = None \<and> 0 < nslices (world_at [1, 1]) \<and> fits None 0 (world_at [1, 1]) \<and>
   admissible (exact tenth 2) reversing (length (slices (world_at [1, 1]) 0))
     (Some (pool_settings\<lparr>Concurrent := True\<rparr>)) \<and>
   fadd (exact tenth 2 :: rat env) = (+) \<and> fsub (exact tenth 2 :: rat env) = (-) \<and>
   fdiv (exact tenth 2 :: rat env) = (/) \<and>
   mats (final (Hessian (exact tenth 2) reversing None first_coord 0
      (Some (pool_settings\<lparr>Concurrent := True\<rparr>)) (world_at [1, 1]))) =
   mats (final (Hessian (exact tenth 2) reversing None first_coord 0
      (Some (pool_settings\<lparr>Concurrent := False\<rparr>)) (world_at [1, 1]))) \<and>
   workers_of (exact tenth 1) (length (slices (world_at [1, 1]) 0))
     (Some (pool_settings\<lparr>Concurrent := True\<rparr>)) = 1 \<and>
   Hessian (exact tenth 1) reversing None first_coord 0
      (Some (pool_settings\<lparr>Concurrent := True\<rparr>)) (world_at [1, 1]) =
   Hessian (exact tenth 1) reversing None first_coord 0
      (Some (pool_settings\<lparr>Concurrent := False\<rparr>)) (world_at [1, 1])"
proof -
  have a: "admissible (exact tenth 2) reversing (length (slices (world_at [1, 1]) 0))
     (Some (pool_settings\<lparr>Concurrent := True\<rparr>))"
    by (rule reversing_admissible_pool) (simp_all add: exact_def)
  have e: "fadd (exact tenth 2 :: rat env) = (+) \<and> fsub (exact tenth 2 :: rat env) = (-) \<and>
   fdiv (exact tenth 2 :: rat env) = (/)"
    by (simp add: exact_def)
  have o: "workers_of (exact tenth 1) (length (slices (world_at [1, 1]) 0))
     (Some (pool_settings\<lparr>Concurrent := True\<rparr>)) = 1"
    by (simp add: workers_of_def settings_of_def exact_def world_at_ready)
  then have a1: "admissible (exact tenth 1) reversing (length (slices (world_at [1, 1]) 0))
     (Some (pool_settings\<lparr>Concurrent := True\<rparr>))"
    by (simp add: admissible_def)
  show ?thesis
    using paths_agree_with_one_worker_or_exact_arithmetic[OF world_at_ready(1) world_at_ready(2)
        world_at_ready(3) a, of first_coord]
      paths_agree_with_one_worker_or_exact_arithmetic[OF world_at_ready(1) world_at_ready(2)
        world_at_ready(3) a1, of first_coord]
      world_at_ready(1,2,3)[of "[1, 1]"] a e o
    by blast
qed

text \<open>
  The claim C1 as stated fails: for \<^verbatim>\<open>f(x) = x[0]\<close> at the point (1, 1) with step 0.1 and
  two available processors, entry (0, 0) is 0 on the pool path and 25 / 2^51 on the
  serial path.
\<close>

theorem concurrent_differs_from_serial_counterexample:
  "At (mats (final (Hessian (binary64 tenth 2) reversing None first_coord 0
         (Some pool_settings) (world_at [1, 1]))) 0) 0 0 \<noteq>
   At (mats (final (Hessian (binary64 tenth 2) reversing None first_coord 0
         (Some (pool_settings\<lparr>Concurrent := False\<rparr>)) (world_at [1, 1]))) 0) 0 0"
proof -
  have aT: "admissible (binary64 tenth 2) reversing (length (slices (world_at [1, 1]) 0))
     (Some pool_settings)"
    by (rule reversing_admissible)
  have aF: "admissible (binary64 tenth 2) reversing (length (slices (world_at [1, 1]) 0))
     (Some (pool_settings\<lparr>Concurrent := False\<rparr>))"
    by (simp add: admissible_def workers_of_def settings_of_def)
  have T: "At (mats (final (Hessian (binary64 tenth 2) reversing None first_coord 0
         (Some pool_settings) (world_at [1, 1]))) 0) 0 0 = 0"
    using Hessian_cell(1)[OF world_at_ready(1) world_at_ready(2) world_at_ready(3) aT, of 0 0 first_coord]
    by (simp add: world_at_sink world_at_ready(4) pool_entry_diag)
  have F: "At (mats (final (Hessian (binary64 tenth 2) reversing None first_coord 0
         (Some (pool_settings\<lparr>Concurrent := False\<rparr>)) (world_at [1, 1]))) 0) 0 0 = 25 / 2251799813685248"
    using Hessian_cell(1)[OF world_at_ready(1) world_at_ready(2) world_at_ready(3) aF, of 0 0 first_coord]
    by (simp add: world_at_sink world_at_ready(4) serial_entry_diag)
  show ?thesis unfolding T F by simp
qed

subsection \<open>The entry formulas (C2, C3)\<close>

text \<open>
  C2, as the code has it. The diagonal entry (i, i) of the returned sink is the value of
  the specification's formula \<open>((neigh i - origin) / step - (origin - fii) / step) / step\<close>
  on the serial path (the call resolves to one worker), and the value of
  \<open>(fii - origin + neigh i - origin) / step / step\<close> on the pool path, with
  \<open>neigh i = f (x + step e_i)\<close>, \<open>fii = f (x - step e_i)\<close> and the resolved step and origin.
\<close>

theorem diagonal_entry_by_path:
  assumes "fault w = None" "x < nslices w" "fits dst x w"
    and "admissible E S (length (slices w x)) settings"
    and "i < length (slices w x)"
  shows "let xs = slices w x; step = step_of E settings; origin = origin_of E f xs settings;
             neigh_i = f (shifted E xs step i); fii = f (shifted_back E xs step i)
         in At (mats (final (Hessian E S dst f x settings w)) (sink_of dst w)) i i =
            (if workers_of E (length xs) settings = 1
             then fdiv E (fsub E (fdiv E (fsub E neigh_i origin) step)
                                 (fdiv E (fsub E origin fii) step)) step
             else fdiv E (fdiv E (fsub E (fadd E (fsub E fii origin) neigh_i) origin) step) step)"
  using Hessian_cell(1)[OF assms(1-4) order_refl assms(5), of f]
  by (simp add: Let_def entry_of_def serial_entry_def concurrent_entry_def)

theorem diagonal_entry_by_path_witness:
  "fault (world_at [1, 1]) = None \<and> 0 < nslices (world_at [1, 1]) \<and> fits None 0 (world_at [1, 1]) \<and>
   admissible (binary64 tenth 2) reversing (length (slices (world_at [1, 1]) 0)) (Some pool_settings) \<and>
   0 < length (slices (world_at [1, 1]) 0) \<and>
   (let xs = slices (world_at [1, 1]) 0; step = step_of (binary64 tenth 2) (Some pool_settings);
        origin = origin_of (binary64 tenth 2) first_coord xs (Some pool_settings);
        neigh_i = first_coord (shifted (binary64 tenth 2) xs step 0);
        fii = first_coord (shifted_back (binary64 tenth 2) xs step 0)
    in At (mats (final (Hessian (binary64 tenth 2) reversing None first_coord 0 (Some pool_settings)
             (world_at [1, 1]))) (sink_of None (world_at [1, 1]))) 0 0 =
       (if workers_of (binary64 tenth 2) (length xs) (Some pool_settings) = 1
        then fdiv (binary64 tenth 2)
               (fsub (binary64 tenth 2) (fdiv (binary64 tenth 2) (fsub (binary64 tenth 2) neigh_i origin) step)
                  (fdiv (binary64 tenth 2) (fsub (binary64 tenth 2) origin fii) step)) step
        else fdiv (binary64 tenth 2)
               (fdiv (binary64 tenth 2)
                  (fsub (binary64 tenth 2)
                     (fadd (binary64 tenth 2) (fsub (binary64 tenth 2) fii origin) neigh_i) origin)
                  step) step))"
proof -
  have i: "0 < length (slices (world_at [1, 1]) 0)" by (simp add: world_at_ready)
  show ?thesis
    using diagonal_entry_by_path[OF world_at_ready(1) world_at_ready(2) world_at_ready(3)
        reversing_admissible[of tenth 1 1] i, of first_coord]
      world_at_ready(1,2,3)[of "[1, 1]"] reversing_admissible[of tenth 1 1] i
    by blast
qed

text \<open>
  The claim C2 as stated fails on the pool path: for \<^verbatim>\<open>f(x) = x[0]\<close> at (1, 1) with step 0.1
  the entry (0, 0) written is 0, and the formula of the claim gives 25 / 2^51.
\<close>

theorem diagonal_formula_counterexample:
  "At (mats (final (Hessian (binary64 tenth 2) reversing None first_coord 0
         (Some pool_settings) (world_at [1, 1]))) 0) 0 0 \<noteq>
   fdiv (binary64 tenth 2)
     (fsub (binary64 tenth 2)
        (fdiv (binary64 tenth 2)
           (fsub (binary64 tenth 2) (first_coord (shifted (binary64 tenth 2) [1, 1] tenth 0))
              (first_coord [1, 1])) tenth)
        (fdiv (binary64 tenth 2)
           (fsub (binary64 tenth 2) (first_coord [1, 1])
              (first_coord (shifted_back (binary64 tenth 2) [1, 1] tenth 0))) tenth))
     tenth"
proof -
  have T: "At (mats (final (Hessian (binary64 tenth 2) reversing None first_coord 0
         (Some pool_settings) (world_at [1, 1]))) 0) 0 0 = 0"
    using Hessian_cell(1)[OF world_at_ready(1) world_at_ready(2) world_at_ready(3)
        reversing_admissible[of tenth 1 1], of 0 0 first_coord]
    by (simp add: world_at_sink world_at_ready(4) pool_entry_diag)
  have o: "first_coord [1, 1] = 1" by (simp add: first_coord_def)
  have F: "fdiv (binary64 tenth 2)
     (fsub (binary64 tenth 2)
        (fdiv (binary64 tenth 2)
           (fsub (binary64 tenth 2) (first_coord (shifted (binary64 tenth 2) [1, 1] tenth 0))
              (first_coord [1, 1])) tenth)
        (fdiv (binary64 tenth 2)
           (fsub (binary64 tenth 2) (first_coord [1, 1])
              (first_coord (shifted_back (binary64 tenth 2) [1, 1] tenth 0))) tenth))
     tenth = 25 / 2251799813685248"
    using serial_diag_value unfolding serial_entry_def o by simp
  show ?thesis unfolding T F by simp
qed

text \<open>
  C3, as the code has it. The entry (i, j), \<open>i < j\<close>, of the returned sink (read at (i, j)
  or mirrored at (j, i)) is the value of the specification's formula
  \<open>((fij - neigh j) / step - (neigh i - origin) / step) / step\<close> on the serial path, and the
  value of \<open>(fij - neigh j + origin - neigh i) / step / step\<close> on the pool path, with
  \<open>fij = f (x + step e_i + step e_j)\<close>.
\<close>

theorem off_diagonal_entry_by_path:
  assumes "fault w = None" "x < nslices w" "fits dst x w"
    and "admissible E S (length (slices w x)) settings"
    and "i < j" "j < length (slices w x)"
  shows "let xs = slices w x; step = step_of E settings; origin = origin_of E f xs settings;
             neigh_i = f (shifted E xs step i); neigh_j = f (shifted E xs step j);
             fij = f (shifted E (shifted E xs step i) step j);
             entry = (if workers_of E (length xs) settings = 1
                      then fdiv E (fsub E (fdiv E (fsub E fij neigh_j) step)
                                          (fdiv E (fsub E neigh_i origin) step)) step
                      else fdiv E (fdiv E (fsub E (fadd E (fsub E fij neigh_j) origin) neigh_i) step) step)
         in At (mats (final (Hessian E S dst f x settings w)) (sink_of dst w)) i j = entry \<and>
            At (mats (final (Hessian E S dst f x settings w)) (sink_of dst w)) j i = entry"
proof -
  have le: "i \<le> j" and ne: "i \<noteq> j" using assms(5) by simp_all
  show ?thesis
    using Hessian_cell[OF assms(1-4) le assms(6), of f] ne
    by (simp add: Let_def entry_of_def serial_entry_def concurrent_entry_def)
qed

theorem off_diagonal_entry_by_path_witness:
  "fault (world_at [three_tenths, 3]) = None \<and> 0 < nslices (world_at [three_tenths, 3]) \<and>
   fits None 0 (world_at [three_tenths, 3]) \<and>
   admissible (binary64 tenth 2) reversing (length (slices (world_at [three_tenths, 3]) 0))
     (Some (pool_settings\<lparr>Step := 1\<rparr>)) \<and>
   (0::nat) < 1 \<and> 1 < length (slices (world_at [three_tenths, 3]) 0) \<and>
   (let xs = slices (world_at [three_tenths, 3]) 0;
        step = step_of (binary64 tenth 2) (Some (pool_settings\<lparr>Step := 1\<rparr>));
        origin = origin_of (binary64 tenth 2) product xs (Some (pool_settings\<lparr>Step := 1\<rparr>));
        neigh_i = product (shifted (binary64 tenth 2) xs step 0);
        neigh_j = product (shifted (binary64 tenth 2) xs step 1);
        fij = product (shifted (binary64 tenth 2) (shifted (binary64 tenth 2) xs step 0) step 1);
        entry = (if workers_of (binary64 tenth 2) (length xs) (Some (pool_settings\<lparr>Step := 1\<rparr>)) = 1
                 then fdiv (binary64 tenth 2)
                        (fsub (binary64 tenth 2)
                           (fdiv (binary64 tenth 2) (fsub (binary64 tenth 2) fij neigh_j) step)
                           (fdiv (binary64 tenth 2) (fsub (binary64 tenth 2) neigh_i origin) step)) step
                 else fdiv (binary64 tenth 2)
                        (fdiv (binary64 tenth 2)
                           (fsub (binary64 tenth 2)
                              (fadd (binary64 tenth 2) (fsub (binary64 tenth 2) fij neigh_j) origin)
                              neigh_i) step) step)
    in At (mats (final (Hessian (binary64 tenth 2) reversing None product 0
             (Some (pool_settings\<lparr>Step := 1\<rparr>)) (world_at [three_tenths, 3])))
            (sink_of None (world_at [three_tenths, 3]))) 0 1 = entry \<and>
       At (mats (final (Hessian (binary64 tenth 2) reversing None product 0
             (Some (pool_settings\<lparr>Step := 1\<rparr>)) (world_at [three_tenths, 3])))
            (sink_of None (world_at [three_tenths, 3]))) 1 0 = entry)"
proof -
  have i: "(0::nat) < 1" by simp
  have j: "1 < length (slices (world_at [three_tenths, 3]) 0)" by (simp add: world_at_ready)
  show ?thesis
    using off_diagonal_entry_by_path[OF world_at_ready(1) world_at_ready(2) world_at_ready(3)
        unit_step_admissible[of three_tenths 3] i j, of product]
      world_at_ready(1,2,3)[of "[three_tenths, 3]"] unit_step_admissible[of three_tenths 3] i j
    by blast
qed

text \<open>
  The claim C3 as stated fails on the pool path: for \<^verbatim>\<open>f(x) = x[0] * x[1]\<close> at (0.3, 3) with
  step 1 the entry (0, 1) written is 1, and the formula of the claim gives 1 - 2^-51.
\<close>

theorem off_diagonal_formula_counterexample:
  "At (mats (final (Hessian (binary64 tenth 2) reversing None product 0
         (Some (pool_settings\<lparr>Step := 1\<rparr>)) (world_at [three_tenths, 3]))) 0) 0 1 \<noteq>
   fdiv (binary64 tenth 2)
     (fsub (binary64 tenth 2)
        (fdiv (binary64 tenth 2)
           (fsub (binary64 tenth 2)
              (product (shifted (binary64 tenth 2) (shifted (binary64 tenth 2) [three_tenths, 3] 1 0) 1 1))
              (product (shifted (binary64 tenth 2) [three_tenths, 3] 1 1))) 1)
        (fdiv (binary64 tenth 2)
           (fsub (binary64 tenth 2) (product (shifted (binary64 tenth 2) [three_tenths, 3] 1 0))
              (product [three_tenths, 3])) 1))
     1"
proof -
  have T: "At (mats (final (Hessian (binary64 tenth 2) reversing None product 0
         (Some (pool_settings\<lparr>Step := 1\<rparr>)) (world_at [three_tenths, 3]))) 0) 0 1 = 1"
    using Hessian_cell(1)[OF world_at_ready(1) world_at_ready(2) world_at_ready(3)
        unit_step_admissible[of three_tenths 3], of 0 1 product] pool_entry_off
    by (simp add: world_at_sink world_at_ready(4))
  have F: "fdiv (binary64 tenth 2)
     (fsub (binary64 tenth 2)
        (fdiv (binary64 tenth 2)
           (fsub (binary64 tenth 2)
              (product (shifted (binary64 tenth 2) (shifted (binary64 tenth 2) [three_tenths, 3] 1 0) 1 1))
              (product (shifted (binary64 tenth 2) [three_tenths, 3] 1 1))) 1)
        (fdiv (binary64 tenth 2)
           (fsub (binary64 tenth 2) (product (shifted (binary64 tenth 2) [three_tenths, 3] 1 0))
              (product [three_tenths, 3])) 1))
     1 = 2251799813685247 / 2251799813685248"
    using serial_off_value unfolding serial_entry_def by simp
  show ?thesis unfolding T F by simp
qed

subsection \<open>The size check (C4)\<close>

text \<open>
  C4. A sink passed by the caller whose dimension differs from the length of the point
  makes \<^verbatim>\<open>Hessian\<close> panic with the mismatched-size error, and the panic carries the world
  of the call unchanged: the function has not been evaluated and nothing has been written
  to any sink.
\<close>

theorem mismatched_sink_panics_before_any_work:
  assumes "sym_n (mats w d) \<noteq> length (slices w x)"
  shows "Hessian E S (Some d) f x settings w = Panic Mismatched_matrix_size w \<and>
         evals (final (Hessian E S (Some d) f x settings w)) = evals w \<and>
         sets (final (Hessian E S (Some d) f x settings w)) = sets w \<and>
         mats (final (Hessian E S (Some d) f x settings w)) = mats w"
  using assms by (simp add: Hessian_mismatch)

theorem mismatched_sink_panics_witness:
  "sym_n (mats (world_with_sink [1, 1] 3) 0) \<noteq> length (slices (world_with_sink [1, 1] 3) 0) \<and>
   Hessian (binary64 tenth 2) reversing (Some 0) first_coord 0 None (world_with_sink [1, 1] 3) =
     Panic Mismatched_matrix_size (world_with_sink [1, 1] 3)"
proof -
  have h: "sym_n (mats (world_with_sink [1, 1] 3) 0) \<noteq> length (slices (world_with_sink [1, 1] 3) 0)"
    by (simp add: world_with_sink_def world_at_def)
  show ?thesis
    using h mismatched_sink_panics_before_any_work[OF h, of "binary64 tenth 2" reversing first_coord None]
    by simp
qed

subsection \<open>The point is read only (C5)\<close>



subsection \<open>The writes to the sink (C6)\<close>

text \<open>
  C6. The calls of \<^verbatim>\<open>SetSym\<close> a successful call makes, on either path: every one is on the
  sink of the call at a pair (i, j) with \<open>i \<le> j < n\<close>, and every such pair is written by
  exactly one of them.
\<close>

theorem upper_triangle_written_exactly_once:
  assumes "fault w = None" "x < nslices w" "fits dst x w"
    and "admissible E S (length (slices w x)) settings"
  shows "\<exists>news. sets (final (Hessian E S dst f x settings w)) = sets w @ news \<and>
           (\<forall>e\<in>set news. fst e = sink_of dst w \<and> fst (snd e) \<le> fst (snd (snd e)) \<and>
                          fst (snd (snd e)) < length (slices w x)) \<and>
           (\<forall>i j. i \<le> j \<and> j < length (slices w x) \<longrightarrow>
                  length (filter (\<lambda>e. fst (snd e) = i \<and> fst (snd (snd e)) = j) news) = 1)"
proof -
  let ?n = "length (slices w x)"
  let ?g = "\<lambda>job. (sink_of dst w, job_i job, job_j job,
                    entry_of E f (slices w x) settings (job_i job) (job_j job))"
  obtain js where js: "mset js = mset (hessianProducer ?n)"
    and s: "sets (final (Hessian E S dst f x settings w)) = sets w @ map ?g js"
    using Hessian_facts(5)[OF assms refl, of f] by blast
  have set_js: "set js = set (hessianProducer ?n)" using js by (rule mset_eq_setD)
  have dist: "distinct js"
    using mset_eq_imp_distinct_iff[OF js] hessianProducer_distinct by simp
  have a: "\<forall>e\<in>set (map ?g js). fst e = sink_of dst w \<and> fst (snd e) \<le> fst (snd (snd e)) \<and>
             fst (snd (snd e)) < ?n"
    using set_js hessianProducer_bounds by auto
  have b: "length (filter (\<lambda>e. fst (snd e) = i \<and> fst (snd (snd e)) = j) (map ?g js)) = 1"
    if "i \<le> j \<and> j < ?n" for i j
  proof -
    have mem: "hessJob i j \<in> set js" using that set_js by (simp add: hessianProducer_mem)
    have "(\<lambda>job. job_i job = i \<and> job_j job = j) = (\<lambda>job. job = hessJob i j)"
      by (rule ext) (metis hessJob.collapse hessJob.sel)
    then have "length (filter (\<lambda>e. fst (snd e) = i \<and> fst (snd (snd e)) = j) (map ?g js)) =
          length (filter (\<lambda>job. job = hessJob i j) js)"
      by (simp add: filter_map comp_def)
    then show ?thesis using filter_distinct_one[OF dist mem] by simp
  qed
  show ?thesis using s a b by blast
qed

theorem upper_triangle_written_exactly_once_witness:
  "fault (world_at [1, 1]) = None \<and> 0 < nslices (world_at [1, 1]) \<and> fits None 0 (world_at [1, 1]) \<and>
   admissible (binary64 tenth 2) reversing (length (slices (world_at [1, 1]) 0)) (Some pool_settings) \<and>
   (\<exists>news. sets (final (Hessian (binary64 tenth 2) reversing None first_coord 0 (Some pool_settings)
              (world_at [1, 1]))) = sets (world_at [1, 1]) @ news \<and>
           (\<forall>e\<in>set news. fst e = sink_of None (world_at [1, 1]) \<and> fst (snd e) \<le> fst (snd (snd e)) \<and>
                          fst (snd (snd e)) < length (slices (world_at [1, 1]) 0)) \<and>
           (\<forall>i j. i \<le> j \<and> j < length (slices (world_at [1, 1]) 0) \<longrightarrow>
                  length (filter (\<lambda>e. fst (snd e) = i \<and> fst (snd (snd e)) = j) news) = 1))"
  using upper_triangle_written_exactly_once[OF world_at_ready(1) world_at_ready(2) world_at_ready(3)
      reversing_admissible[of tenth 1 1], of first_coord]
    world_at_ready(1,2,3)[of "[1, 1]"] reversing_admissible[of tenth 1 1]
  by blast

subsection \<open>A supplied origin value (C7)\<close>

text \<open>
  C7. For a pure function, a call with the origin value supplied and equal to \<open>f x\<close>
  returns the same sink holding the same matrix, entry for entry, as the call that
  evaluates the origin itself, on either path.
\<close>

theorem known_origin_gives_the_same_matrix:
  assumes "fault w = None" "x < nslices w" "fits dst x w"
    and "admissible E S (length (slices w x)) (Some st)"
  shows "sink (Hessian E S dst f x (Some (st\<lparr>OriginKnown := True, OriginValue := f (slices w x)\<rparr>)) w) =
         sink (Hessian E S dst f x (Some (st\<lparr>OriginKnown := False\<rparr>)) w) \<and>
         mats (final (Hessian E S dst f x
                 (Some (st\<lparr>OriginKnown := True, OriginValue := f (slices w x)\<rparr>)) w)) =
         mats (final (Hessian E S dst f x (Some (st\<lparr>OriginKnown := False\<rparr>)) w))"
proof -
  let ?k = "Some (st\<lparr>OriginKnown := True, OriginValue := f (slices w x)\<rparr>)"
  let ?u = "Some (st\<lparr>OriginKnown := False\<rparr>)"
  have ak: "admissible E S (length (slices w x)) ?k" and au: "admissible E S (length (slices w x)) ?u"
    using assms(4) by (simp_all add: admissible_origin)
  note hk = Hessian_facts[OF assms(1,2,3) ak refl, of f]
  note hu = Hessian_facts[OF assms(1,2,3) au refl, of f]
  have "sink (Hessian E S dst f x ?k w) = sink_of dst w" "sink (Hessian E S dst f x ?u w) = sink_of dst w"
    using hk(1) hu(1) by (metis outcome.sel(1))+
  then show ?thesis
    unfolding hk(6) hu(6) by (simp add: entry_of_origin)
qed

theorem known_origin_gives_the_same_matrix_witness:
  "fault (world_at [1, 1]) = None \<and> 0 < nslices (world_at [1, 1]) \<and> fits None 0 (world_at [1, 1]) \<and>
   admissible (binary64 tenth 2) reversing (length (slices (world_at [1, 1]) 0)) (Some pool_settings) \<and>
   mats (final (Hessian (binary64 tenth 2) reversing None first_coord 0
           (Some (pool_settings\<lparr>OriginKnown := True,
                                OriginValue := first_coord (slices (world_at [1, 1]) 0)\<rparr>))
           (world_at [1, 1]))) =
   mats (final (Hessian (binary64 tenth 2) reversing None first_coord 0
           (Some (pool_settings\<lparr>OriginKnown := False\<rparr>)) (world_at [1, 1])))"
  using known_origin_gives_the_same_matrix[OF world_at_ready(1) world_at_ready(2) world_at_ready(3)
      reversing_admissible[of tenth 1 1], of first_coord]
    world_at_ready(1,2,3)[of "[1, 1]"] reversing_admissible[of tenth 1 1]
  by blast

subsection \<open>The number of evaluations (C8)\<close>

text \<open>
  C8. A successful call evaluates the function \<open>n + (n + n (n - 1) / 2)\<close> times when the
  origin value is supplied and once more when it is not, on either path; so for \<open>n = 0\<close>
  it evaluates it at most once.
\<close>

theorem number_of_evaluations:
  assumes "fault w = None" "x < nslices w" "fits dst x w"
    and "admissible E S (length (slices w x)) settings"
    and "n = length (slices w x)"
  shows "\<exists>pts. evals (final (Hessian E S dst f x settings w)) = evals w @ pts \<and>
           length pts = (if OriginKnown (settings_of E settings) then 0 else 1) +
                        (n + (n + n * (n - 1) div 2)) \<and>
           (n = 0 \<longrightarrow> length pts \<le> 1)"
proof -
  obtain pts where "evals (final (Hessian E S dst f x settings w)) = evals w @ pts"
    and "length pts = (if OriginKnown (settings_of E settings) then 0 else 1) +
                        (n + (n + n * (n - 1) div 2))"
    using Hessian_facts(4)[OF assms(1-4) refl, of f] assms(5) by blast
  then show ?thesis by (intro exI[of _ pts]) auto
qed

theorem number_of_evaluations_witness:
  "fault (world_at [1, 1]) = None \<and> 0 < nslices (world_at [1, 1]) \<and> fits None 0 (world_at [1, 1]) \<and>
   admissible (binary64 tenth 2) reversing (length (slices (world_at [1, 1]) 0)) (Some pool_settings) \<and>
   2 = length (slices (world_at [1, 1]) 0) \<and>
   (\<exists>pts. evals (final (Hessian (binary64 tenth 2) reversing None first_coord 0 (Some pool_settings)
              (world_at [1, 1]))) = evals (world_at [1, 1]) @ pts \<and>
           length pts = (if OriginKnown (settings_of (binary64 tenth 2) (Some pool_settings)) then 0 else 1) +
                        (2 + (2 + 2 * (2 - 1) div 2)) \<and>
           ((2::nat) = 0 \<longrightarrow> length pts \<le> 1))"
proof -
  have n: "2 = length (slices (world_at [1, 1]) 0)" by (simp add: world_at_ready)
  show ?thesis
    using number_of_evaluations[OF world_at_ready(1) world_at_ready(2) world_at_ready(3)
        reversing_admissible[of tenth 1 1] n, of first_coord]
      world_at_ready(1,2,3)[of "[1, 1]"] reversing_admissible[of tenth 1 1] n
    by blast
qed

subsection \<open>The step (C9)\<close>

text \<open>
  C9. The step of the stencil. A call never rejects a step: with any settings it returns,
  every point it evaluates the function at is the point shifted by \<open>step\<close>, and every
  entry is the entry formula of its path at \<open>step\<close>, where \<open>step\<close> is the default
  \<^verbatim>\<open>Central2nd.Step\<close> when the supplied step compares equal to zero, and the supplied
  step itself otherwise, whatever its sign. Nil settings have a zero step, so they use the
  default.
\<close>

theorem step_is_default_iff_zero_else_verbatim:
  assumes "fault w = None" "x < nslices w" "fits dst x w"
    and "admissible E S (length (slices w x)) settings"
    and "step = (if feq E (Step (settings_of E settings)) (fzero E) then Central2nd_Step E
                 else Step (settings_of E settings))"
  shows "Hessian E S dst f x settings w =
           Return (sink_of dst w) (final (Hessian E S dst f x settings w)) \<and>
         mats (final (Hessian E S dst f x settings w)) =
           (mats w)(sink_of dst w :=
              filled (length (slices w x))
                (if workers_of E (length (slices w x)) settings = 1
                 then serial_entry E f (slices w x) step (origin_of E f (slices w x) settings)
                 else concurrent_entry E f (slices w x) step (origin_of E f (slices w x) settings))
                (sink_before E dst (length (slices w x)) w)) \<and>
         (settings = None \<and> feq E (fzero E) (fzero E) \<longrightarrow> step = Central2nd_Step E)"
proof -
  note h = Hessian_facts[OF assms(1,2,3,4) refl, of f]
  have s: "step = step_of E settings" using assms(5) by (simp add: step_of_def)
  have n: "settings = None \<and> feq E (fzero E) (fzero E) \<longrightarrow> step = Central2nd_Step E"
    using assms(5) by (simp add: settings_of_def zero_settings_def)
  show ?thesis
    unfolding h(6) using h(1) n by (simp add: entry_of_def s)
qed

theorem step_is_default_iff_zero_else_verbatim_witness:
  "fault (world_at [1, 1]) = None \<and> 0 < nslices (world_at [1, 1]) \<and> fits None 0 (world_at [1, 1]) \<and>
   admissible (binary64 tenth 2) reversing (length (slices (world_at [1, 1]) 0))
     (Some (pool_settings\<lparr>Step := - (1 / 2)\<rparr>)) \<and>
   - (1 / 2) = (if feq (binary64 tenth 2)
                    (Step (settings_of (binary64 tenth 2) (Some (pool_settings\<lparr>Step := - (1 / 2)\<rparr>))))
                    (fzero (binary64 tenth 2))
                then Central2nd_Step (binary64 tenth 2)
                else Step (settings_of (binary64 tenth 2) (Some (pool_settings\<lparr>Step := - (1 / 2)\<rparr>)))) \<and>
   Hessian (binary64 tenth 2) reversing None first_coord 0 (Some (pool_settings\<lparr>Step := - (1 / 2)\<rparr>))
       (world_at [1, 1]) =
     Return (sink_of None (world_at [1, 1]))
       (final (Hessian (binary64 tenth 2) reversing None first_coord 0
          (Some (pool_settings\<lparr>Step := - (1 / 2)\<rparr>)) (world_at [1, 1]))) \<and>
   mats (final (Hessian (binary64 tenth 2) reversing None first_coord 0
          (Some (pool_settings\<lparr>Step := - (1 / 2)\<rparr>)) (world_at [1, 1]))) =
     (mats (world_at [1, 1]))(sink_of None (world_at [1, 1]) :=
        filled (length (slices (world_at [1, 1]) 0))
          (if workers_of (binary64 tenth 2) (length (slices (world_at [1, 1]) 0))
                (Some (pool_settings\<lparr>Step := - (1 / 2)\<rparr>)) = 1
           then serial_entry (binary64 tenth 2) first_coord (slices (world_at [1, 1]) 0) (- (1 / 2))
                  (origin_of (binary64 tenth 2) first_coord (slices (world_at [1, 1]) 0)
                     (Some (pool_settings\<lparr>Step := - (1 / 2)\<rparr>)))
           else concurrent_entry (binary64 tenth 2) first_coord (slices (world_at [1, 1]) 0) (- (1 / 2))
                  (origin_of (binary64 tenth 2) first_coord (slices (world_at [1, 1]) 0)
                     (Some (pool_settings\<lparr>Step := - (1 / 2)\<rparr>))))
          (sink_before (binary64 tenth 2) None (length (slices (world_at [1, 1]) 0)) (world_at [1, 1])))"
proof -
  have a: "admissible (binary64 tenth 2) reversing (length (slices (world_at [1, 1]) 0))
     (Some (pool_settings\<lparr>Step := - (1 / 2)\<rparr>))"
    by (rule reversing_admissible_pool) (simp_all add: pool_settings_def binary64_def)
  have s: "- (1 / 2) = (if feq (binary64 tenth 2)
                    (Step (settings_of (binary64 tenth 2) (Some (pool_settings\<lparr>Step := - (1 / 2)\<rparr>))))
                    (fzero (binary64 tenth 2))
                then Central2nd_Step (binary64 tenth 2)
                else Step (settings_of (binary64 tenth 2) (Some (pool_settings\<lparr>Step := - (1 / 2)\<rparr>))))"
    by (simp add: settings_of_def binary64_def)
  show ?thesis
    using step_is_default_iff_zero_else_verbatim[OF world_at_ready(1) world_at_ready(2)
        world_at_ready(3) a s, of first_coord]
      world_at_ready(1,2,3)[of "[1, 1]"] a s
    by blast
qed

subsection \<open>The public interface (C10)\<close>



end
